theory Spec2Isabelle
  imports Complex_Main "HOL-Library.Multiset" "HOL-Library.Log_Nat"
begin

section \<open>The BluffBot engine (engine.py)\<close>

text \<open>
  A shallow embedding of \<^verbatim>\<open>engine.py\<close>. Conventions:
  \<^item> Python integers that are only counted upwards from zero by the code (the pairs
    \<^verbatim>\<open>(bluff_count, total_count)\<close> of \<^verbatim>\<open>context_stats\<close>) are natural numbers; card
    strengths, scores and the round number are \<open>int\<close>.
  \<^item> A Python float is an IEEE double, a rational number. \<open>bluff_probability\<close> gives the
    quotient \<^verbatim>\<open>(b + 1) / (t + 3)\<close> exactly; the float that the division returns is the
    double nearest to it, and \<open>decide_call\<close>, which computes with the value, takes that
    double and rounds the result of each of its float operations (\<open>double_of\<close>).
  \<^item> Every call of the ambient random generator (\<^verbatim>\<open>np.random\<close>) is an explicit
    argument: the value drawn is passed in.
  \<^item> The functions mutate \<^verbatim>\<open>g\<close> and \<^verbatim>\<open>ai\<close> in place; the model passes the state and
    returns the new one. An exception is the value \<open>Inl\<close>, carrying the state as the
    mutations made before the raise have left it.
  \<^item> Strings are byte strings; the non-ASCII characters of the message literals are
    written as the UTF-8 bytes the source file holds.
\<close>

subsection \<open>Python built-ins used by the engine\<close>

datatype py_error = ValueError | KeyError

text \<open>\<^verbatim>\<open>min(xs)\<close> and \<^verbatim>\<open>max(xs)\<close>: ValueError on an empty list.\<close>

fun py_min :: "int list \<Rightarrow> py_error + int" where
  "py_min [] = Inl ValueError"
| "py_min (x # xs) = Inr (fold min xs x)"

fun py_max :: "int list \<Rightarrow> py_error + int" where
  "py_max [] = Inl ValueError"
| "py_max (x # xs) = Inr (fold max xs x)"

text \<open>\<^verbatim>\<open>xs.remove(x)\<close>: removes the first occurrence, ValueError when there is none.\<close>

definition list_remove :: "int list \<Rightarrow> int \<Rightarrow> py_error + int list" where
  "list_remove xs x = (if x \<in> set xs then Inr (remove1 x xs) else Inl ValueError)"

text \<open>\<^verbatim>\<open>int(x)\<close> of a float: truncation towards zero.\<close>

definition py_int :: "rat \<Rightarrow> int" where
  "py_int x = (if 0 \<le> x then \<lfloor>x\<rfloor> else \<lceil>x\<rceil>)"

text \<open>
  Float arithmetic. A float operation returns the IEEE binary64 value nearest to the
  exact result, ties going to the even significand: 53 significant bits, and below
  \<open>2 powi (- 1022)\<close> the fixed spacing \<open>2 powi (- 1074)\<close> of the subnormal numbers. All
  results of the engine lie far below the overflow threshold \<open>2 powi 1024\<close>, which is not
  modelled. \<open>ilog2 x\<close> is the exponent \<open>k\<close> with \<open>2 powi k \<le> x < 2 powi (k + 1)\<close> of a
  positive \<open>x\<close>.
\<close>

definition round_half_even :: "rat \<Rightarrow> int" where
  "round_half_even x =
     (let f = \<lfloor>x\<rfloor>; r = x - of_int f
      in if r < 1 / 2 then f
         else if 1 / 2 < r then f + 1
         else if even f then f else f + 1)"

definition ilog2 :: "rat \<Rightarrow> int" where
  "ilog2 x =
     (let k = bitlen (fst (quotient_of x)) - bitlen (snd (quotient_of x))
      in if 2 powi k \<le> x then k else k - 1)"

definition double_of :: "rat \<Rightarrow> rat" where
  "double_of x =
     (if x = 0 then 0
      else let a = \<bar>x\<bar>;
               e = max (ilog2 a - 52) (- 1074);
               m = round_half_even (a / 2 powi e)
           in sgn x * of_int m * 2 powi e)"

text \<open>\<^verbatim>\<open>str(n)\<close> of an integer, as the f-strings format the suspicion.\<close>

definition digit_char :: "nat \<Rightarrow> char" where
  "digit_char n = char_of (48 + n)"

function str_nat :: "nat \<Rightarrow> string" where
  "str_nat n = (if n < 10 then [digit_char n] else str_nat (n div 10) @ [digit_char (n mod 10)])"
  by pat_completeness auto
termination
  by (relation "measure id") auto

definition str_int :: "int \<Rightarrow> string" where
  "str_int i = (if i < 0 then CHR ''-'' # str_nat (nat (- i)) else str_nat (nat i))"

text \<open>
  \<^verbatim>\<open>np.random.choice(xs)\<close> for a non-empty list: the generator draws an index uniformly
  from \<^verbatim>\<open>range(len(xs))\<close>; the index drawn is the argument \<open>i\<close>. An index of that range
  is its own residue, the reduction only makes the model total.
\<close>

definition np_choice :: "'a list \<Rightarrow> nat \<Rightarrow> 'a" where
  "np_choice xs i = xs ! (i mod length xs)"

text \<open>
  \<^verbatim>\<open>np.random.randint(low, high, size)\<close>: \<open>n\<close> integers of \<open>[low, high)\<close>. The sample
  drawn is an argument of the model; this is what the generator can return.
\<close>

definition randint_sample :: "int \<Rightarrow> int \<Rightarrow> nat \<Rightarrow> int list \<Rightarrow> bool" where
  "randint_sample low high n xs =
     (length xs = n \<and> list_all (\<lambda>x. low \<le> x \<and> x < high) xs)"

subsection \<open>Game configuration and data\<close>

definition HAND_SIZE :: nat where
  "HAND_SIZE = 5"

definition MAX_ROUNDS :: int where
  "MAX_ROUNDS = 10"

text \<open>\<^verbatim>\<open>draw_hand(size)\<close> returns the sample of \<^verbatim>\<open>np.random.randint(1, 11, size)\<close> as a list.\<close>

definition draw_hand :: "nat \<Rightarrow> int list \<Rightarrow> bool" where
  "draw_hand n xs = randint_sample 1 11 n xs"

definition strength_bucket :: "int \<Rightarrow> string" where
  "strength_bucket card_strength =
     (if card_strength \<le> 3 then ''weak''
      else if card_strength \<le> 7 then ''medium''
      else ''strong'')"

text \<open>The dictionary lookup of \<^verbatim>\<open>claim_to_strength\<close>: KeyError on any other claim.\<close>

definition claim_to_strength :: "string \<Rightarrow> py_error + int" where
  "claim_to_strength claim =
     (if claim = ''low'' then Inr 3
      else if claim = ''medium'' then Inr 6
      else if claim = ''high'' then Inr 9
      else Inl KeyError)"

record PlayerState =
  hand :: "int list"
  score :: int

text \<open>A row of the \<^verbatim>\<open>history\<close> data frame; the frame is the list of its rows in order.\<close>

record turn_row =
  row_round :: int
  row_actor :: string
  row_actual_strength :: int
  row_claim :: string
  row_did_bluff :: int
  row_bot_called :: int
  row_result :: string

record GameState =
  round_num :: int
  player :: PlayerState
  bot_state :: PlayerState
  history :: "turn_row list"
  last_message :: string
  game_over :: bool

text \<open>The values drawn from \<^verbatim>\<open>np.random\<close> during one call of \<^verbatim>\<open>player_turn\<close>.\<close>

record draws =
  call_noise :: rat
  bluff_roll :: rat
  claim_pick :: nat

subsection \<open>The belief model (class BluffBotAI)\<close>

record BluffBotAI =
  context_stats :: "string \<times> string \<Rightarrow> (nat \<times> nat) option"

definition new_ai :: BluffBotAI where
  "new_ai = \<lparr>context_stats = Map.empty\<rparr>"

definition update_stats :: "BluffBotAI \<Rightarrow> int \<Rightarrow> string \<Rightarrow> bool \<Rightarrow> BluffBotAI" where
  "update_stats ai actual_strength claim did_bluff =
     (let key = (strength_bucket actual_strength, claim);
          bt = (case context_stats ai key of None \<Rightarrow> (0, 0) | Some v \<Rightarrow> v)
      in ai\<lparr>context_stats :=
              (context_stats ai)(key \<mapsto> (fst bt + of_bool did_bluff, snd bt + 1))\<rparr>)"

definition bluff_probability :: "BluffBotAI \<Rightarrow> int \<Rightarrow> string \<Rightarrow> rat" where
  "bluff_probability ai actual_strength claim =
     (let key = (strength_bucket actual_strength, claim)
      in case context_stats ai key of
           None \<Rightarrow> 35 / 100
         | Some (b, t) \<Rightarrow> (of_nat b + 1) / (of_nat t + 3))"

text \<open>
  \<open>noise\<close> is the double \<^verbatim>\<open>np.random.uniform(-0.05, 0.05)\<close> returns. \<^verbatim>\<open>p_bluff\<close> is the
  float the call of \<^verbatim>\<open>bluff_probability\<close> returns; the product, the sum and the literal
  \<^verbatim>\<open>0.55\<close> are floats.
\<close>

definition decide_call :: "BluffBotAI \<Rightarrow> int \<Rightarrow> string \<Rightarrow> rat \<Rightarrow> bool \<times> int" where
  "decide_call ai actual_strength claim noise =
     (let p_bluff = double_of (bluff_probability ai actual_strength claim);
          suspicion = py_int (double_of (p_bluff * 100));
          threshold = double_of (55 / 100);
          call = (double_of (p_bluff + noise) > threshold)
      in (call, suspicion))"

subsection \<open>Game operations\<close>

text \<open>
  \<^verbatim>\<open>init_game(ai)\<close>; \<open>ph\<close> and \<open>bh\<close> are the lists the two calls of \<^verbatim>\<open>draw_hand()\<close>
  return.
\<close>

definition init_game :: "BluffBotAI \<Rightarrow> int list \<Rightarrow> int list \<Rightarrow> GameState" where
  "init_game ai ph bh =
     \<lparr>round_num = 1,
      player = \<lparr>hand = ph, score = 0\<rparr>,
      bot_state = \<lparr>hand = bh, score = 0\<rparr>,
      history = [],
      last_message = ''New game started. Your move!'',
      game_over = False\<rparr>"

definition log_event ::
  "GameState \<Rightarrow> string \<Rightarrow> int \<Rightarrow> string \<Rightarrow> bool \<Rightarrow> bool \<Rightarrow> string \<Rightarrow> GameState" where
  "log_event g actor actual_strength claim did_bluff bot_called result =
     (let row = \<lparr>row_round = round_num g,
                 row_actor = actor,
                 row_actual_strength = actual_strength,
                 row_claim = claim,
                 row_did_bluff = of_bool did_bluff,
                 row_bot_called = of_bool bot_called,
                 row_result = result\<rparr>
      in g\<lparr>history := history g @ [row]\<rparr>)"

text \<open>
  \<^verbatim>\<open>bot_act(g, ai)\<close>. \<open>bluff_roll d\<close> is the value of \<^verbatim>\<open>np.random.rand()\<close>, \<open>claim_pick d\<close>
  the index \<^verbatim>\<open>np.random.choice\<close> draws. The belief model is not read and not written.
\<close>

definition bot_act :: "GameState \<Rightarrow> BluffBotAI \<Rightarrow> draws \<Rightarrow> (py_error \<times> GameState) + GameState" where
  "bot_act g ai d =
     (let bluff = (bluff_roll d < 30 / 100)
      in case (if bluff then py_min (hand (bot_state g)) else py_max (hand (bot_state g))) of
           Inl e \<Rightarrow> Inl (e, g)
         | Inr actual_strength \<Rightarrow>
             (let claim = (if bluff then np_choice [''medium'', ''high''] (claim_pick d)
                           else np_choice [''low'', ''medium'', ''high''] (claim_pick d))
              in case list_remove (hand (bot_state g)) actual_strength of
                   Inl e \<Rightarrow> Inl (e, g)
                 | Inr h \<Rightarrow>
                     (let g1 = g\<lparr>bot_state := (bot_state g)\<lparr>hand := h\<rparr>\<rparr>;
                          bot_called = False;
                          g2 = (if bluff
                                then g1\<lparr>bot_state := (bot_state g1)\<lparr>score := score (bot_state g1) + 1\<rparr>\<rparr>
                                else g1);
                          result = (if bluff then ''Bot bluff succeeded (+1 Bot)''
                                    else ''Bot honest play'')
                      in Inr (log_event g2 ''bot'' actual_strength claim bluff bot_called result))))"

text \<open>
  Lines 113 to 130 of \<^verbatim>\<open>player_turn\<close>: the scoring table. Returns the state with the
  score and the message set, and the result tag.
\<close>

definition resolve_scoring :: "GameState \<Rightarrow> bool \<Rightarrow> bool \<Rightarrow> int \<Rightarrow> GameState \<times> string" where
  "resolve_scoring g bot_called bluff suspicion =
     (if bot_called then
        (if bluff then
           (g\<lparr>bot_state := (bot_state g)\<lparr>score := score (bot_state g) + 1\<rparr>,
              last_message := ''Bot called bluff! ''
                @ [CHR 0xC3, CHR 0xA2, CHR 0xC5, CHR 0x93, CHR 0xE2, CHR 0x80, CHR 0xA6]
                @ '' Caught you. (Suspicion '' @ str_int suspicion @ ''%)''\<rparr>,
            ''Bot caught your bluff (+1 Bot)'')
         else
           (g\<lparr>player := (player g)\<lparr>score := score (player g) + 1\<rparr>,
              last_message := ''Bot called bluff! ''
                @ [CHR 0xC3, CHR 0xA2, CHR 0xC5, CHR 0x92]
                @ '' You were honest. (Suspicion '' @ str_int suspicion @ ''%)''\<rparr>,
            ''Bot wrongly called bluff (+1 You)''))
      else
        (if bluff then
           (g\<lparr>player := (player g)\<lparr>score := score (player g) + 1\<rparr>,
              last_message := ''Bot accepted. ''
                @ [CHR 0xC3, CHR 0xB0, CHR 0xC5, CHR 0xB8, CHR 0xCB, CHR 0x9C, CHR 0xCB, CHR 0x86]
                @ '' Bluff worked! (Suspicion '' @ str_int suspicion @ ''%)''\<rparr>,
            ''Your bluff succeeded (+1 You)'')
         else
           (g\<lparr>last_message := ''Bot accepted. ''
                @ [CHR 0xC3, CHR 0xB0, CHR 0xC5, CHR 0xB8, CHR 0xE2, CHR 0x80, CHR 0x98]
                @ '' Honest play. (Suspicion '' @ str_int suspicion @ ''%)''\<rparr>,
            ''Honest play (no call)'')))"

text \<open>Lines 141 to 145 of \<^verbatim>\<open>player_turn\<close>: advance the round, set the terminal flag.\<close>

definition advance_round :: "GameState \<Rightarrow> GameState" where
  "advance_round g =
     (let g1 = g\<lparr>round_num := round_num g + 1\<rparr>
      in if round_num g1 > MAX_ROUNDS
            \<or> (length (hand (player g1)) = 0 \<and> length (hand (bot_state g1)) = 0)
         then g1\<lparr>game_over := True, last_message := last_message g1 @ '' | Game Over!''\<rparr>
         else g1)"

text \<open>
  Lines 103 to 136 of \<^verbatim>\<open>player_turn\<close>: the player's half of the turn, up to and
  including the player's log entry.
\<close>

definition player_half ::
  "GameState \<Rightarrow> BluffBotAI \<Rightarrow> string \<Rightarrow> bool \<Rightarrow> draws
     \<Rightarrow> (py_error \<times> GameState \<times> BluffBotAI) + (GameState \<times> BluffBotAI)" where
  "player_half g ai claim bluff d =
     (case (if bluff then py_min (hand (player g)) else py_max (hand (player g))) of
        Inl e \<Rightarrow> Inl (e, g, ai)
      | Inr actual_strength \<Rightarrow>
          (case list_remove (hand (player g)) actual_strength of
             Inl e \<Rightarrow> Inl (e, g, ai)
           | Inr h \<Rightarrow>
               (let g1 = g\<lparr>player := (player g)\<lparr>hand := h\<rparr>\<rparr>;
                    cs = decide_call ai actual_strength claim (call_noise d);
                    bot_called = fst cs;
                    suspicion = snd cs;
                    gr = resolve_scoring g1 bot_called bluff suspicion;
                    ai1 = update_stats ai actual_strength claim bluff
                in Inr (log_event (fst gr) ''player'' actual_strength claim bluff bot_called (snd gr),
                        ai1))))"

text \<open>\<^verbatim>\<open>player_turn(g, ai, claim, bluff)\<close>: the player's half, the bot's turn, the round.\<close>

definition player_turn ::
  "GameState \<Rightarrow> BluffBotAI \<Rightarrow> string \<Rightarrow> bool \<Rightarrow> draws
     \<Rightarrow> (py_error \<times> GameState \<times> BluffBotAI) + (GameState \<times> BluffBotAI)" where
  "player_turn g ai claim bluff d =
     (case player_half g ai claim bluff d of
        Inl e \<Rightarrow> Inl e
      | Inr (g3, ai1) \<Rightarrow>
          (case bot_act g3 ai1 d of
             Inl (e, g4) \<Rightarrow> Inl (e, g4, ai1)
           | Inr g4 \<Rightarrow> Inr (advance_round g4, ai1)))"

subsection \<open>Sequences of turns\<close>

text \<open>
  The collaborator (\<^verbatim>\<open>app.py\<close>, line 48) calls \<^verbatim>\<open>player_turn\<close> once per submitted turn
  on the same \<^verbatim>\<open>g\<close> and \<^verbatim>\<open>ai\<close>. \<open>play_turns\<close> is that sequence of calls, each with
  the claim, the bluff intention and the values the generator draws; it stops at the
  first exception. The guard of the user interface (no call once \<^verbatim>\<open>game_over\<close> is set)
  is not part of the engine and not part of \<open>play_turns\<close>.
\<close>

fun play_turns ::
  "GameState \<times> BluffBotAI \<Rightarrow> (string \<times> bool \<times> draws) list
     \<Rightarrow> (py_error \<times> GameState \<times> BluffBotAI) + (GameState \<times> BluffBotAI)" where
  "play_turns s [] = Inr s"
| "play_turns s (t # rest) =
     (case player_turn (fst s) (snd s) (fst t) (fst (snd t)) (snd (snd t)) of
        Inl e \<Rightarrow> Inl e
      | Inr s1 \<Rightarrow> play_turns s1 rest)"

text \<open>The state the caller holds after a call, whether it returned or raised.\<close>

definition state_after ::
  "(py_error \<times> GameState \<times> BluffBotAI) + (GameState \<times> BluffBotAI) \<Rightarrow> GameState \<times> BluffBotAI" where
  "state_after r = (case r of Inl (e, s) \<Rightarrow> s | Inr s \<Rightarrow> s)"

text \<open>The card \<^verbatim>\<open>min(xs)\<close> or \<^verbatim>\<open>max(xs)\<close> selects from a non-empty hand.\<close>

definition played_card :: "bool \<Rightarrow> int list \<Rightarrow> int" where
  "played_card bluff xs = (if bluff then Min (set xs) else Max (set xs))"

text \<open>
  A sequence of observations \<^verbatim>\<open>ai.update_stats(strength, claim, did_bluff)\<close>, in order.
\<close>

fun observe_all :: "BluffBotAI \<Rightarrow> (int \<times> string \<times> bool) list \<Rightarrow> BluffBotAI" where
  "observe_all ai [] = ai"
| "observe_all ai (obs # rest) =
     observe_all (update_stats ai (fst obs) (fst (snd obs)) (snd (snd obs))) rest"

text \<open>
  The round number and the actor of the rows that \<open>n\<close> completed rounds append to the
  history, in order, when the first of them is round \<open>r\<close>.
\<close>

fun round_rows :: "int \<Rightarrow> nat \<Rightarrow> (int \<times> string) list" where
  "round_rows r 0 = []"
| "round_rows r (Suc n) = (r, ''player'') # (r, ''bot'') # round_rows (r + 1) n"

subsection \<open>Concrete inputs\<close>

text \<open>A new game with two hands of five cards, and the draws of a round.\<close>

definition fresh_game :: GameState where
  "fresh_game = init_game new_ai [2, 9, 4, 7, 5] [3, 8, 1, 6, 10]"

definition rolls_honest :: draws where
  "rolls_honest = \<lparr>call_noise = 0, bluff_roll = 1 / 2, claim_pick = 1\<rparr>"

definition rolls_bluff :: draws where
  "rolls_bluff = \<lparr>call_noise = 1 / 128, bluff_roll = 1 / 8, claim_pick = 0\<rparr>"

definition five_turns :: "(string \<times> bool \<times> draws) list" where
  "five_turns =
     [(''high'', False, rolls_honest), (''high'', True, rolls_bluff), (''low'', True, rolls_bluff),
      (''medium'', False, rolls_honest), (''high'', True, rolls_honest)]"

text \<open>A belief model that has seen three bluffs in each of two contexts.\<close>

definition wary_ai :: BluffBotAI where
  "wary_ai = observe_all new_ai (replicate 3 (9, ''high'', True) @ replicate 3 (2, ''high'', True))"

text \<open>
  A game state past the round limit, with the terminal flag set, in which both hands
  still hold cards.
\<close>

definition finished_game :: GameState where
  "finished_game = (init_game new_ai [2, 9] [3, 8])\<lparr>round_num := 11, game_over := True\<rparr>"

text \<open>The fresh game after the five turns, and a hand that holds a card twice.\<close>

definition played_out_game :: GameState where
  "played_out_game = fst (state_after (play_turns (fresh_game, new_ai) five_turns))"

definition paired_game :: GameState where
  "paired_game = init_game new_ai [3, 7, 3] [1, 8, 1]"

section \<open>Properties of the belief model\<close>

subsection \<open>Auxiliary facts\<close>

lemma laplace_eq_prior_iff:
  "((of_nat b + 1) / (of_nat t + 3) = (35 / 100 :: rat)) \<longleftrightarrow> 20 * (b + 1) = 7 * (t + 3)"
proof -
  have pos: "(of_nat t + 3 :: rat) \<noteq> 0"
    by (metis add_pos_nonneg less_numeral_extra(3) of_nat_0_le_iff zero_less_numeral add.commute)
  have "((of_nat b + 1) / (of_nat t + 3) = (35 / 100 :: rat))
          \<longleftrightarrow> (of_nat b + 1) * 100 = (35 :: rat) * (of_nat t + 3)"
    by (rule frac_eq_eq) (use pos in simp_all)
  also have "\<dots> \<longleftrightarrow> (of_nat (100 * (b + 1)) :: rat) = of_nat (35 * (t + 3))"
    by (simp add: algebra_simps)
  also have "\<dots> \<longleftrightarrow> 100 * (b + 1) = 35 * (t + 3)"
    by (simp only: of_nat_eq_iff)
  also have "\<dots> \<longleftrightarrow> 20 * (b + 1) = 7 * (t + 3)"
    by presburger
  finally show ?thesis .
qed

lemma py_int_nonneg: "0 \<le> x \<Longrightarrow> py_int x = \<lfloor>x\<rfloor>"
  by (simp add: py_int_def)

lemma bluff_probability_nonneg: "0 \<le> bluff_probability ai s c"
  by (simp add: bluff_probability_def split: option.split)

lemma round_half_even_nonneg: "0 \<le> x \<Longrightarrow> 0 \<le> round_half_even x"
proof -
  assume "0 \<le> x"
  then have "0 \<le> \<lfloor>x\<rfloor>" by simp
  then show ?thesis
    by (simp add: round_half_even_def Let_def)
qed

lemma double_of_nonneg: "0 \<le> x \<Longrightarrow> 0 \<le> double_of x"
proof (cases "x = 0")
  case True
  then show ?thesis by (simp add: double_of_def)
next
  case False
  assume "0 \<le> x"
  with False have pos: "0 < x" by simp
  have p: "0 < (2 :: rat) powi max (ilog2 x - 52) (- 1074)"
    by (rule zero_less_power_int) simp
  then have "0 \<le> x / 2 powi max (ilog2 x - 52) (- 1074)"
    using pos by simp
  then have "0 \<le> round_half_even (x / 2 powi max (ilog2 x - 52) (- 1074))"
    by (rule round_half_even_nonneg)
  with p pos show ?thesis
    by (simp add: double_of_def Let_def)
qed

lemma bitlen_powi_bounds:
  assumes "0 < n"
  shows "(2 :: rat) powi (bitlen n - 1) \<le> of_int n" "of_int n < (2 :: rat) powi bitlen n"
proof -
  from bitlen_bounds [OF assms]
  have lo: "2 ^ nat (bitlen n - 1) \<le> n" and hi: "n < 2 ^ nat (bitlen n)"
    by simp_all
  have pos: "0 < bitlen n"
    using assms bitlen_nonneg [of n] bitlen_eq_zero_iff [of n] by linarith
  have "(2 :: rat) powi (bitlen n - 1) = of_int (2 ^ nat (bitlen n - 1))"
    using pos by (simp add: power_int_def)
  also have "\<dots> \<le> of_int n"
    using lo by (simp only: of_int_le_iff)
  finally show "(2 :: rat) powi (bitlen n - 1) \<le> of_int n" .
  have "(of_int n :: rat) < of_int (2 ^ nat (bitlen n))"
    using hi by (simp only: of_int_less_iff)
  also have "\<dots> = (2 :: rat) powi bitlen n"
    using pos by (simp add: power_int_def)
  finally show "of_int n < (2 :: rat) powi bitlen n" .
qed

lemma ilog2_bounds:
  assumes "0 < x"
  shows "2 powi ilog2 x \<le> x" and "x < 2 powi (ilog2 x + 1)"
proof -
  obtain n d where q: "quotient_of x = (n, d)"
    by (cases "quotient_of x")
  have d: "0 < d"
    using quotient_of_denom_pos [OF q] .
  have x: "x = of_int n / of_int d"
    using quotient_of_div [OF q] .
  have n: "0 < n"
    using assms d by (simp add: x zero_less_divide_iff)
  define k where "k = bitlen n - bitlen d"
  have "(2 :: rat) powi (k - 1) = 2 powi (bitlen n - 1) / 2 powi bitlen d"
    by (simp add: k_def power_int_diff)
  also have "\<dots> \<le> of_int n / of_int d"
    using bitlen_powi_bounds(1) [OF n] bitlen_powi_bounds(2) [OF d] d n
    by (intro frac_le) simp_all
  finally have lo: "2 powi (k - 1) \<le> x"
    by (simp add: x)
  have p: "(0 :: rat) < 2 powi (bitlen d - 1)"
    by (rule zero_less_power_int) simp
  have "of_int n / of_int d < (2 :: rat) powi bitlen n / 2 powi (bitlen d - 1)"
    using bitlen_powi_bounds(2) [OF n] bitlen_powi_bounds(1) [OF d] n p
    by (intro frac_less) simp_all
  also have "\<dots> = 2 powi (bitlen n - (bitlen d - 1))"
    by (subst power_int_diff) simp_all
  also have "bitlen n - (bitlen d - 1) = k + 1"
    by (simp add: k_def)
  finally have hi: "x < 2 powi (k + 1)"
    by (simp add: x)
  have il: "ilog2 x = (if 2 powi k \<le> x then k else k - 1)"
    by (simp add: ilog2_def q k_def)
  show "2 powi ilog2 x \<le> x"
    using lo by (simp add: il)
  show "x < 2 powi (ilog2 x + 1)"
    using hi by (simp add: il not_le)
qed

lemma ilog2_mono:
  assumes "0 < x" and "x \<le> y"
  shows "ilog2 x \<le> ilog2 y"
proof -
  have "0 < y" using assms by simp
  have "(2 :: rat) powi ilog2 x \<le> x"
    using assms(1) by (rule ilog2_bounds)
  also have "\<dots> \<le> y" by fact
  also have "\<dots> < 2 powi (ilog2 y + 1)"
    using \<open>0 < y\<close> by (rule ilog2_bounds)
  finally have lt: "(2 :: rat) powi ilog2 x < 2 powi (ilog2 y + 1)" .
  show ?thesis
  proof (rule ccontr)
    assume "\<not> ilog2 x \<le> ilog2 y"
    then have "ilog2 y + 1 \<le> ilog2 x" by simp
    then have "(2 :: rat) powi (ilog2 y + 1) \<le> 2 powi ilog2 x"
      by (intro power_int_increasing) simp_all
    with lt show False by simp
  qed
qed

lemma round_half_even_bounds: "\<lfloor>x\<rfloor> \<le> round_half_even x" "round_half_even x \<le> \<lfloor>x\<rfloor> + 1"
  by (simp_all add: round_half_even_def Let_def)

lemma round_half_even_of_int: "round_half_even (of_int n) = n"
  by (simp add: round_half_even_def)

lemma round_half_even_mono:
  assumes "x \<le> y"
  shows "round_half_even x \<le> round_half_even y"
proof (cases "\<lfloor>x\<rfloor> = \<lfloor>y\<rfloor>")
  case True
  with assms have "x - of_int \<lfloor>x\<rfloor> \<le> y - of_int \<lfloor>y\<rfloor>"
    by simp
  with True show ?thesis
    by (auto simp add: round_half_even_def Let_def)
next
  case False
  with assms have "\<lfloor>x\<rfloor> + 1 \<le> \<lfloor>y\<rfloor>"
    using floor_mono [OF assms] by simp
  with round_half_even_bounds(2) [of x] round_half_even_bounds(1) [of y]
  show ?thesis by simp
qed

lemma double_of_pos:
  assumes "0 < x"
  shows "double_of x
    = of_int (round_half_even (x / 2 powi max (ilog2 x - 52) (- 1074)))
        * 2 powi max (ilog2 x - 52) (- 1074)"
  using assms by (simp add: double_of_def Let_def)

lemma double_of_minus: "double_of (- x) = - double_of x"
  by (simp add: double_of_def Let_def sgn_minus)

lemma double_of_mono_pos:
  assumes "0 < x" and "x \<le> y"
  shows "double_of x \<le> double_of y"
proof -
  have y: "0 < y" using assms by simp
  define ex where "ex = max (ilog2 x - 52) (- 1074)"
  define ey where "ey = max (ilog2 y - 52) (- 1074)"
  have px: "(0 :: rat) < 2 powi ex" and py: "(0 :: rat) < 2 powi ey"
    by (rule zero_less_power_int, simp)+
  have dx: "double_of x = of_int (round_half_even (x / 2 powi ex)) * 2 powi ex"
    using assms(1) by (simp add: double_of_pos ex_def)
  have dy: "double_of y = of_int (round_half_even (y / 2 powi ey)) * 2 powi ey"
    using y by (simp add: double_of_pos ey_def)
  have le: "ex \<le> ey"
    using ilog2_mono [OF assms] by (simp add: ex_def ey_def)
  show ?thesis
  proof (cases "ex = ey")
    case True
    have "x / 2 powi ey \<le> y / 2 powi ey"
      using assms(2) py by (simp add: divide_right_mono)
    then have "round_half_even (x / 2 powi ey) \<le> round_half_even (y / 2 powi ey)"
      by (rule round_half_even_mono)
    then have "(of_int (round_half_even (x / 2 powi ey)) :: rat)
        \<le> of_int (round_half_even (y / 2 powi ey))"
      by (simp only: of_int_le_iff)
    then show ?thesis
      using py by (simp add: dx dy True mult_right_mono)
  next
    case False
    with le have lt: "ex < ey" by simp
    then have ey_eq: "ey = ilog2 y - 52"
      by (simp add: ex_def ey_def max_def split: if_splits)
    have kx: "ilog2 x + 1 \<le> ey + 52"
      using lt by (simp add: ex_def)
    define j where "j = nat (ey + 52 - ex)"
    have j: "ey + 52 - ex = int j"
      using lt by (simp add: j_def)
    have b_ex: "(2 :: rat) powi (ey + 52) = of_int (2 ^ j) * 2 powi ex"
    proof -
      have "(2 :: rat) powi (ey + 52) = 2 powi (int j + ex)"
        using j by (simp add: algebra_simps)
      also have "\<dots> = 2 powi int j * 2 powi ex"
        by (simp add: power_int_add)
      finally show ?thesis by simp
    qed
    have b_ey: "(2 :: rat) powi (ey + 52) = of_int (2 ^ 52) * 2 powi ey"
      by (simp add: power_int_add mult.commute)
    have "x < 2 powi (ilog2 x + 1)"
      using assms(1) by (rule ilog2_bounds)
    also have "\<dots> \<le> 2 powi (ey + 52)"
      using kx by (simp add: power_int_increasing)
    finally have "x \<le> of_int (2 ^ j) * 2 powi ex"
      by (simp add: b_ex)
    then have "x / 2 powi ex \<le> of_int (2 ^ j)"
      using px by (simp add: pos_divide_le_eq)
    then have "round_half_even (x / 2 powi ex) \<le> round_half_even (of_int (2 ^ j))"
      by (rule round_half_even_mono)
    then have "round_half_even (x / 2 powi ex) \<le> 2 ^ j"
      by (simp only: round_half_even_of_int)
    then have "(of_int (round_half_even (x / 2 powi ex)) :: rat) \<le> of_int (2 ^ j)"
      by (simp only: of_int_le_iff)
    then have "double_of x \<le> of_int (2 ^ j) * 2 powi ex"
      using px by (simp add: dx mult_right_mono)
    then have upper: "double_of x \<le> 2 powi (ey + 52)"
      by (simp add: b_ex)
    have "(2 :: rat) powi (ey + 52) \<le> y"
      using ilog2_bounds(1) [OF y] by (simp add: ey_eq)
    then have "of_int (2 ^ 52) \<le> y / 2 powi ey"
      using py by (simp add: b_ey pos_le_divide_eq)
    then have "round_half_even (of_int (2 ^ 52)) \<le> round_half_even (y / 2 powi ey)"
      by (rule round_half_even_mono)
    then have "2 ^ 52 \<le> round_half_even (y / 2 powi ey)"
      by (simp only: round_half_even_of_int)
    then have "(of_int (2 ^ 52) :: rat) \<le> of_int (round_half_even (y / 2 powi ey))"
      by (simp only: of_int_le_iff)
    then have "of_int (2 ^ 52) * 2 powi ey \<le> double_of y"
      using py by (simp add: dy mult_right_mono)
    then have "2 powi (ey + 52) \<le> double_of y"
      by (simp add: b_ey)
    with upper show ?thesis by simp
  qed
qed

lemma double_of_mono:
  assumes "x \<le> y"
  shows "double_of x \<le> double_of y"
proof -
  consider "0 < x" | "x \<le> 0" "0 \<le> y" | "y < 0"
    by linarith
  then show ?thesis
  proof cases
    case 1
    then show ?thesis using assms by (rule double_of_mono_pos)
  next
    case 2
    from 2(1) have "0 \<le> double_of (- x)"
      by (intro double_of_nonneg) simp
    then have "double_of x \<le> 0"
      by (simp add: double_of_minus)
    also have "0 \<le> double_of y"
      using 2(2) by (rule double_of_nonneg)
    finally show ?thesis .
  next
    case 3
    then have "0 < - y" and "- y \<le> - x"
      using assms by simp_all
    then have "double_of (- y) \<le> double_of (- x)"
      by (rule double_of_mono_pos)
    then show ?thesis
      by (simp add: double_of_minus)
  qed
qed

lemma noise_absorbed_below:
  "double_of (double_of (1 / 2) + double_of (5 / 100)) \<le> double_of (55 / 100)"
  by code_simp

lemma noise_absorbed_above:
  "double_of (55 / 100) < double_of (double_of (61 / 100) - double_of (5 / 100))"
  by code_simp

lemma double_of_prior_scaled: "double_of (double_of (35 / 100) * 100) = 35"
  by code_simp

lemma stats_28_of_47:
  "context_stats
     (observe_all new_ai (replicate 28 (2, ''high'', True) @ replicate 19 (2, ''high'', False)))
     (strength_bucket 2, ''high'') = Some (28, 47)"
  by code_simp

lemma suspicion_28_of_47:
  "snd (decide_call
     (observe_all new_ai (replicate 28 (2, ''high'', True) @ replicate 19 (2, ''high'', False)))
     2 ''high'' 0) = 57"
  by code_simp

lemma stats_after_one_bluff:
  "context_stats (update_stats new_ai 2 ''high'' True) (strength_bucket 2, ''high'') = Some (1, 1)"
  by (simp add: update_stats_def new_ai_def strength_bucket_def)

lemma stats_unseen: "context_stats new_ai (strength_bucket 9, ''low'') = None"
  by (simp add: new_ai_def)

lemma stats_6_of_17:
  "context_stats
     (observe_all new_ai (replicate 6 (2, ''high'', True) @ replicate 11 (2, ''high'', False)))
     (strength_bucket 2, ''high'') = Some (6, 17)"
  by code_simp

lemma stats_0_of_3:
  "context_stats (observe_all new_ai (replicate 3 (2, ''high'', False)))
     (strength_bucket 2, ''high'') = Some (0, 3)"
  by code_simp

subsection \<open>The estimate\<close>

text \<open>
  Claim C1. For every context key (the bucket of a strength, and a claim):
  \<^verbatim>\<open>bluff_probability\<close> returns exactly 0.35 when the key has never been observed, and
  otherwise \<open>(bluff_count + 1) / (total_count + 3)\<close>; for all counts with
  \<open>bluff_count \<le> total_count\<close> that value lies strictly between 0 and 1.
\<close>

theorem bluff_probability_estimate:
  "(context_stats ai (strength_bucket s, c) = None \<longrightarrow> bluff_probability ai s c = 35 / 100) \<and>
   (\<forall>b t. context_stats ai (strength_bucket s, c) = Some (b, t) \<longrightarrow>
      bluff_probability ai s c = (of_nat b + 1) / (of_nat t + 3) \<and>
      (b \<le> t \<longrightarrow> 0 < bluff_probability ai s c \<and> bluff_probability ai s c < 1))"
  by (simp add: bluff_probability_def)

theorem bluff_probability_estimate_witness:
  "context_stats new_ai (strength_bucket 9, ''low'') = None \<and>
   bluff_probability new_ai 9 ''low'' = 35 / 100 \<and>
   context_stats (update_stats new_ai 2 ''high'' True) (strength_bucket 2, ''high'') = Some (1, 1) \<and>
   (1 :: nat) \<le> 1 \<and>
   bluff_probability (update_stats new_ai 2 ''high'' True) 2 ''high'' = 1 / 2 \<and>
   0 < bluff_probability (update_stats new_ai 2 ''high'' True) 2 ''high'' \<and>
   bluff_probability (update_stats new_ai 2 ''high'' True) 2 ''high'' < 1"
  using stats_unseen stats_after_one_bluff
    bluff_probability_estimate [of new_ai 9 "''low''"]
    bluff_probability_estimate [of "update_stats new_ai 2 ''high'' True" 2 "''high''"]
  by simp

text \<open>
  Claim C5, as stated: for every observed context (\<open>t \<ge> 1\<close>, \<open>b \<le> t\<close>) the estimate
  \<open>(b + 1) / (t + 3)\<close> is never equal to the prior 0.35. It fails: after 17 observations
  of one context, 6 of them bluffs, the estimate is \<open>7 / 20 = 0.35\<close>.
\<close>

theorem observed_estimate_equals_prior_counterexample:
  "context_stats
     (observe_all new_ai (replicate 6 (2, ''high'', True) @ replicate 11 (2, ''high'', False)))
     (strength_bucket 2, ''high'') = Some (6, 17) \<and>
   (6 :: nat) \<le> 17 \<and> (1 :: nat) \<le> 17 \<and>
   bluff_probability
     (observe_all new_ai (replicate 6 (2, ''high'', True) @ replicate 11 (2, ''high'', False)))
     2 ''high'' = 35 / 100"
  by code_simp

text \<open>
  Claim C5, amended: for an observed context with counts \<open>(b, t)\<close> the estimate equals
  the prior 0.35 exactly when \<open>20 * (b + 1) = 7 * (t + 3)\<close>; in particular it never does
  while the context has been observed fewer than 17 times.
\<close>

theorem estimate_equals_prior_iff:
  "context_stats ai (strength_bucket s, c) = Some (b, t) \<Longrightarrow>
     (bluff_probability ai s c = 35 / 100 \<longleftrightarrow> 20 * (b + 1) = 7 * (t + 3)) \<and>
     (t < 17 \<longrightarrow> bluff_probability ai s c \<noteq> 35 / 100)"
proof -
  assume st: "context_stats ai (strength_bucket s, c) = Some (b, t)"
  then have p: "bluff_probability ai s c = (of_nat b + 1) / (of_nat t + 3)"
    by (simp add: bluff_probability_def)
  have "t < 17 \<Longrightarrow> 20 * (b + 1) \<noteq> 7 * (t + 3)"
    by presburger
  then show ?thesis
    unfolding p laplace_eq_prior_iff by blast
qed

theorem estimate_equals_prior_iff_witness:
  "context_stats
     (observe_all new_ai (replicate 6 (2, ''high'', True) @ replicate 11 (2, ''high'', False)))
     (strength_bucket 2, ''high'') = Some (6, 17) \<and>
   bluff_probability
     (observe_all new_ai (replicate 6 (2, ''high'', True) @ replicate 11 (2, ''high'', False)))
     2 ''high'' = 35 / 100 \<and>
   context_stats (observe_all new_ai (replicate 3 (2, ''high'', False)))
     (strength_bucket 2, ''high'') = Some (0, 3) \<and>
   (3 :: nat) < 17 \<and>
   bluff_probability (observe_all new_ai (replicate 3 (2, ''high'', False))) 2 ''high'' \<noteq> 35 / 100"
  using stats_6_of_17 stats_0_of_3
    estimate_equals_prior_iff [OF stats_6_of_17] estimate_equals_prior_iff [OF stats_0_of_3]
  by simp

subsection \<open>The suspicion value\<close>

text \<open>
  Claim C4, as stated: the suspicion returned by \<^verbatim>\<open>decide_call\<close> equals
  \<open>round (p * 100)\<close>, the nearest integer. It fails: after three honest observations of
  one context the estimate is \<open>1 / 6\<close>, the float product is \<open>16.666666666666664\<close>, the
  suspicion is 16 and the nearest integer is 17.
\<close>

theorem suspicion_is_rounded_counterexample:
  "snd (decide_call (observe_all new_ai (replicate 3 (2, ''high'', False))) 2 ''high'' 0) = 16 \<and>
   round (double_of
     (double_of (bluff_probability (observe_all new_ai (replicate 3 (2, ''high'', False))) 2 ''high'')
        * 100)) = 17 \<and>
   round_half_even (double_of
     (double_of (bluff_probability (observe_all new_ai (replicate 3 (2, ''high'', False))) 2 ''high'')
        * 100)) = 17 \<and>
   round (bluff_probability (observe_all new_ai (replicate 3 (2, ''high'', False))) 2 ''high'' * 100)
     = 17"
  by code_simp

text \<open>
  Claim C4, amended: the suspicion is \<^verbatim>\<open>int(p_bluff * 100)\<close>, the float product of the
  estimate and 100 truncated to an integer, not rounded: it is the nearest integer to
  that product or the integer just below it, and it is never negative. For an unseen
  context it is 35.
\<close>

theorem suspicion_truncates:
  "snd (decide_call ai s c noise) =
     \<lfloor>double_of (double_of (bluff_probability ai s c) * 100)\<rfloor> \<and>
   0 \<le> snd (decide_call ai s c noise) \<and>
   snd (decide_call ai s c noise)
     \<le> round (double_of (double_of (bluff_probability ai s c) * 100)) \<and>
   round (double_of (double_of (bluff_probability ai s c) * 100))
     \<le> snd (decide_call ai s c noise) + 1 \<and>
   (context_stats ai (strength_bucket s, c) = None \<longrightarrow> snd (decide_call ai s c noise) = 35)"
proof -
  define y where "y = double_of (double_of (bluff_probability ai s c) * 100)"
  have "0 \<le> double_of (bluff_probability ai s c)"
    by (rule double_of_nonneg) (rule bluff_probability_nonneg)
  then have "0 \<le> double_of (bluff_probability ai s c) * 100"
    by simp
  then have y0: "0 \<le> y"
    unfolding y_def by (rule double_of_nonneg)
  have susp: "snd (decide_call ai s c noise) = \<lfloor>y\<rfloor>"
    using y0 by (simp add: decide_call_def Let_def py_int_nonneg y_def)
  have nonneg: "0 \<le> \<lfloor>y\<rfloor>"
    using y0 by simp
  have r1: "\<lfloor>y\<rfloor> \<le> round y"
    unfolding round_def by (rule floor_mono) simp
  have r2: "round y \<le> \<lfloor>y\<rfloor> + 1"
    unfolding round_def by linarith
  have unseen: "context_stats ai (strength_bucket s, c) = None \<longrightarrow> \<lfloor>y\<rfloor> = 35"
  proof
    assume "context_stats ai (strength_bucket s, c) = None"
    then have "bluff_probability ai s c = 35 / 100"
      by (simp add: bluff_probability_def)
    then have "y = 35"
      unfolding y_def by (simp only: double_of_prior_scaled)
    then show "\<lfloor>y\<rfloor> = 35" by simp
  qed
  show ?thesis
    unfolding y_def [symmetric] susp using nonneg r1 r2 unseen by blast
qed

theorem suspicion_truncates_witness:
  "context_stats new_ai (strength_bucket 9, ''low'') = None \<and>
   snd (decide_call new_ai 9 ''low'' 0) = 35 \<and>
   context_stats
     (observe_all new_ai (replicate 28 (2, ''high'', True) @ replicate 19 (2, ''high'', False)))
     (strength_bucket 2, ''high'') = Some (28, 47) \<and>
   snd (decide_call
     (observe_all new_ai (replicate 28 (2, ''high'', True) @ replicate 19 (2, ''high'', False)))
     2 ''high'' 0) = 57"
  using stats_unseen stats_28_of_47 suspicion_28_of_47
    suspicion_truncates [where ai = new_ai and s = 9 and c = "''low''" and noise = 0]
  by blast

section \<open>Properties of the game operations\<close>

subsection \<open>Selecting and removing a card\<close>

lemma py_min_Min: "xs \<noteq> [] \<Longrightarrow> py_min xs = Inr (Min (set xs))"
  by (cases xs) (simp_all add: Min.set_eq_fold [symmetric])

lemma py_max_Max: "xs \<noteq> [] \<Longrightarrow> py_max xs = Inr (Max (set xs))"
  by (cases xs) (simp_all add: Max.set_eq_fold [symmetric])

lemma pick_card: "xs \<noteq> [] \<Longrightarrow> (if bluff then py_min xs else py_max xs) = Inr (played_card bluff xs)"
  by (simp add: played_card_def py_min_Min py_max_Max)

lemma played_card_in: "xs \<noteq> [] \<Longrightarrow> played_card bluff xs \<in> set xs"
  by (simp add: played_card_def)

lemma list_remove_played:
  "xs \<noteq> [] \<Longrightarrow> list_remove xs (played_card bluff xs) = Inr (remove1 (played_card bluff xs) xs)"
  by (simp add: list_remove_def played_card_in)

lemma length_remove1_member: "x \<in> set xs \<Longrightarrow> Suc (length (remove1 x xs)) = length xs"
proof -
  assume x: "x \<in> set xs"
  then have "0 < length xs" by (cases xs) auto
  with x show ?thesis by (simp add: length_remove1)
qed

lemma length_remove_played:
  "xs \<noteq> [] \<Longrightarrow> Suc (length (remove1 (played_card bluff xs) xs)) = length xs"
  by (simp add: length_remove1_member played_card_in)

lemma log_event_fields:
  "round_num (log_event g a s c b k r) = round_num g"
  "player (log_event g a s c b k r) = player g"
  "bot_state (log_event g a s c b k r) = bot_state g"
  "game_over (log_event g a s c b k r) = game_over g"
  "last_message (log_event g a s c b k r) = last_message g"
  "history (log_event g a s c b k r) =
     history g @ [\<lparr>row_round = round_num g, row_actor = a, row_actual_strength = s,
                    row_claim = c, row_did_bluff = of_bool b, row_bot_called = of_bool k,
                    row_result = r\<rparr>]"
  by (simp_all add: log_event_def)

lemma resolve_scoring_fields:
  "round_num (fst (resolve_scoring g k b s)) = round_num g"
  "history (fst (resolve_scoring g k b s)) = history g"
  "game_over (fst (resolve_scoring g k b s)) = game_over g"
  "hand (player (fst (resolve_scoring g k b s))) = hand (player g)"
  "hand (bot_state (fst (resolve_scoring g k b s))) = hand (bot_state g)"
  "score (player (fst (resolve_scoring g k b s))) =
     score (player g) + (if (k \<and> \<not> b) \<or> (\<not> k \<and> b) then 1 else 0)"
  "score (bot_state (fst (resolve_scoring g k b s))) =
     score (bot_state g) + (if k \<and> b then 1 else 0)"
  "snd (resolve_scoring g k b s) =
     (if k then (if b then ''Bot caught your bluff (+1 Bot)''
                 else ''Bot wrongly called bluff (+1 You)'')
      else (if b then ''Your bluff succeeded (+1 You)'' else ''Honest play (no call)''))"
  by (simp_all add: resolve_scoring_def)

lemma advance_round_fields:
  "round_num (advance_round g) = round_num g + 1"
  "player (advance_round g) = player g"
  "bot_state (advance_round g) = bot_state g"
  "history (advance_round g) = history g"
  "game_over (advance_round g) =
     (game_over g \<or> round_num g + 1 > MAX_ROUNDS
        \<or> (hand (player g) = [] \<and> hand (bot_state g) = []))"
  by (auto simp add: advance_round_def Let_def)

lemma player_half_empty:
  "hand (player g) = [] \<Longrightarrow> player_half g ai claim bluff d = Inl (ValueError, g, ai)"
  by (simp add: player_half_def)

lemma player_half_nonempty:
  assumes "hand (player g) \<noteq> []"
  shows "player_half g ai claim bluff d =
     (let c = played_card bluff (hand (player g));
          g1 = g\<lparr>player := (player g)\<lparr>hand := remove1 c (hand (player g))\<rparr>\<rparr>;
          cs = decide_call ai c claim (call_noise d);
          gr = resolve_scoring g1 (fst cs) bluff (snd cs)
      in Inr (log_event (fst gr) ''player'' c claim bluff (fst cs) (snd gr),
              update_stats ai c claim bluff))"
  using assms by (simp add: player_half_def pick_card list_remove_played Let_def)

lemma player_half_fields:
  assumes ne: "hand (player g) \<noteq> []"
    and c: "c = played_card bluff (hand (player g))"
    and k: "k = fst (decide_call ai c claim (call_noise d))"
  shows "\<exists>g1. player_half g ai claim bluff d = Inr (g1, update_stats ai c claim bluff)
           \<and> hand (player g1) = remove1 c (hand (player g))
           \<and> hand (bot_state g1) = hand (bot_state g)
           \<and> score (player g1) = score (player g) + (if (k \<and> \<not> bluff) \<or> (\<not> k \<and> bluff) then 1 else 0)
           \<and> score (bot_state g1) = score (bot_state g) + (if k \<and> bluff then 1 else 0)
           \<and> round_num g1 = round_num g
           \<and> game_over g1 = game_over g
           \<and> history g1 = history g @
                [\<lparr>row_round = round_num g, row_actor = ''player'', row_actual_strength = c,
                   row_claim = claim, row_did_bluff = of_bool bluff, row_bot_called = of_bool k,
                   row_result =
                     (if k then (if bluff then ''Bot caught your bluff (+1 Bot)''
                                 else ''Bot wrongly called bluff (+1 You)'')
                      else (if bluff then ''Your bluff succeeded (+1 You)''
                            else ''Honest play (no call)''))\<rparr>]"
  unfolding player_half_nonempty [OF ne] Let_def c k
  by (simp add: log_event_fields resolve_scoring_fields)

lemma bot_act_empty: "hand (bot_state g) = [] \<Longrightarrow> bot_act g ai d = Inl (ValueError, g)"
  by (simp add: bot_act_def Let_def)

lemma bot_act_fields:
  assumes ne: "hand (bot_state g) \<noteq> []"
    and b: "b = (bluff_roll d < 30 / 100)"
    and c: "c = played_card b (hand (bot_state g))"
  shows "\<exists>g1. bot_act g ai d = Inr g1
           \<and> hand (bot_state g1) = remove1 c (hand (bot_state g))
           \<and> score (bot_state g1) = score (bot_state g) + (if b then 1 else 0)
           \<and> player g1 = player g
           \<and> round_num g1 = round_num g
           \<and> game_over g1 = game_over g
           \<and> history g1 = history g @
                [\<lparr>row_round = round_num g, row_actor = ''bot'', row_actual_strength = c,
                   row_claim = (if b then np_choice [''medium'', ''high''] (claim_pick d)
                                else np_choice [''low'', ''medium'', ''high''] (claim_pick d)),
                   row_did_bluff = of_bool b, row_bot_called = 0,
                   row_result = (if b then ''Bot bluff succeeded (+1 Bot)''
                                 else ''Bot honest play'')\<rparr>]"
  using ne unfolding b c
  by (simp add: bot_act_def pick_card list_remove_played Let_def log_event_fields)

subsection \<open>One call of player_turn\<close>

lemma player_turn_empty:
  "hand (player g) = [] \<Longrightarrow> player_turn g ai claim bluff d = Inl (ValueError, g, ai)"
  by (simp add: player_turn_def player_half_empty)

lemma player_turn_bot_empty:
  assumes ne: "hand (player g) \<noteq> []" and be: "hand (bot_state g) = []"
  shows "\<exists>g1 ai1. player_half g ai claim bluff d = Inr (g1, ai1)
            \<and> player_turn g ai claim bluff d = Inl (ValueError, g1, ai1)"
proof -
  from player_half_fields [OF ne refl refl, where ai = ai and claim = claim and d = d and bluff = bluff]
  obtain g1 where h: "player_half g ai claim bluff d =
        Inr (g1, update_stats ai (played_card bluff (hand (player g))) claim bluff)"
    and bh: "hand (bot_state g1) = hand (bot_state g)"
    by blast
  from bh be have "bot_act g1 (update_stats ai (played_card bluff (hand (player g))) claim bluff) d
      = Inl (ValueError, g1)"
    by (simp add: bot_act_empty)
  with h show ?thesis
    by (simp add: player_turn_def)
qed

lemma player_turn_fields:
  assumes ne: "hand (player g) \<noteq> []" and bne: "hand (bot_state g) \<noteq> []"
    and c: "c = played_card bluff (hand (player g))"
    and k: "k = fst (decide_call ai c claim (call_noise d))"
    and b: "b = (bluff_roll d < 30 / 100)"
    and cb: "cb = played_card b (hand (bot_state g))"
  shows "\<exists>g'. player_turn g ai claim bluff d = Inr (g', update_stats ai c claim bluff)
           \<and> hand (player g') = remove1 c (hand (player g))
           \<and> hand (bot_state g') = remove1 cb (hand (bot_state g))
           \<and> score (player g') = score (player g) + (if (k \<and> \<not> bluff) \<or> (\<not> k \<and> bluff) then 1 else 0)
           \<and> score (bot_state g') =
               score (bot_state g) + (if k \<and> bluff then 1 else 0) + (if b then 1 else 0)
           \<and> round_num g' = round_num g + 1
           \<and> game_over g' =
               (game_over g \<or> round_num g + 1 > MAX_ROUNDS
                  \<or> (hand (player g') = [] \<and> hand (bot_state g') = []))
           \<and> history g' = history g @
                [\<lparr>row_round = round_num g, row_actor = ''player'', row_actual_strength = c,
                   row_claim = claim, row_did_bluff = of_bool bluff, row_bot_called = of_bool k,
                   row_result =
                     (if k then (if bluff then ''Bot caught your bluff (+1 Bot)''
                                 else ''Bot wrongly called bluff (+1 You)'')
                      else (if bluff then ''Your bluff succeeded (+1 You)''
                            else ''Honest play (no call)''))\<rparr>,
                 \<lparr>row_round = round_num g, row_actor = ''bot'', row_actual_strength = cb,
                   row_claim = (if b then np_choice [''medium'', ''high''] (claim_pick d)
                                else np_choice [''low'', ''medium'', ''high''] (claim_pick d)),
                   row_did_bluff = of_bool b, row_bot_called = 0,
                   row_result = (if b then ''Bot bluff succeeded (+1 Bot)''
                                 else ''Bot honest play'')\<rparr>]"
proof -
  from player_half_fields [OF ne c k]
  obtain g1 where h: "player_half g ai claim bluff d = Inr (g1, update_stats ai c claim bluff)"
    and g1: "hand (player g1) = remove1 c (hand (player g))"
      "hand (bot_state g1) = hand (bot_state g)"
      "score (player g1) = score (player g) + (if (k \<and> \<not> bluff) \<or> (\<not> k \<and> bluff) then 1 else 0)"
      "score (bot_state g1) = score (bot_state g) + (if k \<and> bluff then 1 else 0)"
      "round_num g1 = round_num g"
      "game_over g1 = game_over g"
      "history g1 = history g @
                [\<lparr>row_round = round_num g, row_actor = ''player'', row_actual_strength = c,
                   row_claim = claim, row_did_bluff = of_bool bluff, row_bot_called = of_bool k,
                   row_result =
                     (if k then (if bluff then ''Bot caught your bluff (+1 Bot)''
                                 else ''Bot wrongly called bluff (+1 You)'')
                      else (if bluff then ''Your bluff succeeded (+1 You)''
                            else ''Honest play (no call)''))\<rparr>]"
    by blast
  have bne1: "hand (bot_state g1) \<noteq> []"
    using bne g1(2) by simp
  have cb1: "cb = played_card b (hand (bot_state g1))"
    using cb g1(2) by simp
  from bot_act_fields [OF bne1 b cb1, where ai = "update_stats ai c claim bluff"]
  obtain g2 where a: "bot_act g1 (update_stats ai c claim bluff) d = Inr g2"
    and g2: "hand (bot_state g2) = remove1 cb (hand (bot_state g1))"
      "score (bot_state g2) = score (bot_state g1) + (if b then 1 else 0)"
      "player g2 = player g1"
      "round_num g2 = round_num g1"
      "game_over g2 = game_over g1"
      "history g2 = history g1 @
                [\<lparr>row_round = round_num g1, row_actor = ''bot'', row_actual_strength = cb,
                   row_claim = (if b then np_choice [''medium'', ''high''] (claim_pick d)
                                else np_choice [''low'', ''medium'', ''high''] (claim_pick d)),
                   row_did_bluff = of_bool b, row_bot_called = 0,
                   row_result = (if b then ''Bot bluff succeeded (+1 Bot)''
                                 else ''Bot honest play'')\<rparr>]"
    by blast
  have t: "player_turn g ai claim bluff d = Inr (advance_round g2, update_stats ai c claim bluff)"
    by (simp add: player_turn_def h a)
  show ?thesis
    unfolding t using g1 g2 by (simp add: advance_round_fields)
qed

lemma player_turn_Inr_nonempty:
  assumes "player_turn g ai claim bluff d = Inr s"
  shows "hand (player g) \<noteq> [] \<and> hand (bot_state g) \<noteq> []"
proof (rule ccontr)
  assume "\<not> ?thesis"
  then consider "hand (player g) = []" | "hand (player g) \<noteq> []" "hand (bot_state g) = []"
    by blast
  then show False
  proof cases
    case 1
    then show False using assms by (simp add: player_turn_empty)
  next
    case 2
    from player_turn_bot_empty [OF 2, of ai claim bluff d] show False
      using assms by auto
  qed
qed

lemma player_turn_game_over_kept:
  "game_over g \<Longrightarrow> game_over (fst (state_after (player_turn g ai claim bluff d)))"
proof -
  assume go: "game_over g"
  consider "hand (player g) = []" | "hand (player g) \<noteq> []" "hand (bot_state g) = []"
    | "hand (player g) \<noteq> []" "hand (bot_state g) \<noteq> []"
    by blast
  then show ?thesis
  proof cases
    case 1
    then show ?thesis using go by (simp add: player_turn_empty state_after_def)
  next
    case 2
    from player_half_fields [OF 2(1) refl refl, where ai = ai and claim = claim and d = d and bluff = bluff]
    obtain g1 where h: "player_half g ai claim bluff d =
        Inr (g1, update_stats ai (played_card bluff (hand (player g))) claim bluff)"
      and bh: "hand (bot_state g1) = hand (bot_state g)" and go1: "game_over g1 = game_over g"
      by blast
    from bh 2(2) have "bot_act g1 (update_stats ai (played_card bluff (hand (player g))) claim bluff) d
      = Inl (ValueError, g1)"
      by (simp add: bot_act_empty)
    with h go go1 show ?thesis
      by (simp add: player_turn_def state_after_def)
  next
    case 3
    from player_turn_fields [OF 3 refl refl refl refl, where ai = ai and claim = claim and d = d and bluff = bluff]
    show ?thesis using go by (auto simp add: state_after_def)
  qed
qed

lemma play_turns_game_over_kept:
  "game_over g \<Longrightarrow> game_over (fst (state_after (play_turns (g, ai) ts)))"
proof (induction ts arbitrary: g ai)
  case Nil
  then show ?case by (simp add: state_after_def)
next
  case (Cons t ts)
  show ?case
  proof (cases "player_turn g ai (fst t) (fst (snd t)) (snd (snd t))")
    case (Inl e)
    with player_turn_game_over_kept [OF Cons.prems, of ai "fst t" "fst (snd t)" "snd (snd t)"]
    show ?thesis by simp
  next
    case (Inr s)
    obtain g1 ai1 where s: "s = (g1, ai1)" by (cases s)
    with Inr player_turn_game_over_kept [OF Cons.prems, of ai "fst t" "fst (snd t)" "snd (snd t)"]
    have "game_over g1" by (simp add: state_after_def)
    from Cons.IH [OF this, of ai1] Inr s show ?thesis by simp
  qed
qed

lemma player_turn_step:
  assumes "player_turn g ai claim bluff d = Inr (g', ai')"
  shows "Suc (length (hand (player g'))) = length (hand (player g))"
    and "Suc (length (hand (bot_state g'))) = length (hand (bot_state g))"
    and "round_num g' = round_num g + 1"
    and "game_over g' = (game_over g \<or> round_num g' > MAX_ROUNDS
            \<or> (hand (player g') = [] \<and> hand (bot_state g') = []))"
    and "\<exists>p b. history g' = history g @ [p, b]
            \<and> row_round p = round_num g \<and> row_actor p = ''player''
            \<and> row_round b = round_num g \<and> row_actor b = ''bot''"
proof -
  from player_turn_Inr_nonempty [OF assms]
  have ne: "hand (player g) \<noteq> []" and bne: "hand (bot_state g) \<noteq> []" by simp_all
  from player_turn_fields [OF ne bne refl refl refl refl, where ai = ai and claim = claim and d = d and bluff = bluff]
    assms
  show "Suc (length (hand (player g'))) = length (hand (player g))"
    and "Suc (length (hand (bot_state g'))) = length (hand (bot_state g))"
    and "round_num g' = round_num g + 1"
    and "game_over g' = (game_over g \<or> round_num g' > MAX_ROUNDS
            \<or> (hand (player g') = [] \<and> hand (bot_state g') = []))"
    and "\<exists>p b. history g' = history g @ [p, b]
            \<and> row_round p = round_num g \<and> row_actor p = ''player''
            \<and> row_round b = round_num g \<and> row_actor b = ''bot''"
    using ne bne by (auto simp add: length_remove_played)
qed

subsection \<open>Sequences of calls\<close>

lemma length_round_rows: "length (round_rows r n) = 2 * n"
  by (induction n arbitrary: r) simp_all

lemma round_rows_lower: "x \<in> set (round_rows r n) \<Longrightarrow> r \<le> fst x"
proof (induction n arbitrary: r)
  case 0
  then show ?case by simp
next
  case (Suc n)
  from Suc.prems have "x = (r, ''player'') \<or> x = (r, ''bot'') \<or> x \<in> set (round_rows (r + 1) n)"
    by simp
  then show ?case
    using Suc.IH [of "r + 1"] by force
qed

lemma sorted_round_rows: "sorted (map fst (round_rows r n))"
proof (induction n arbitrary: r)
  case 0
  then show ?case by simp
next
  case (Suc n)
  have "\<forall>x \<in> set (round_rows (r + 1) n). r \<le> fst x"
    using round_rows_lower [of _ "r + 1" n] by force
  then show ?case
    using Suc.IH [of "r + 1"] by simp
qed

lemma nth_round_rows:
  "i < 2 * n \<Longrightarrow>
     round_rows r n ! i = (r + int (i div 2), if even i then ''player'' else ''bot'')"
proof (induction n arbitrary: r i)
  case 0
  then show ?case by simp
next
  case (Suc n)
  consider "i = 0" | "i = 1" | j where "i = Suc (Suc j)"
    by (metis One_nat_def not0_implies_Suc)
  then show ?case
  proof cases
    case 1
    then show ?thesis by simp
  next
    case 2
    then show ?thesis by simp
  next
    case 3
    with Suc.prems have "j < 2 * n" by simp
    from Suc.IH [OF this, of "r + 1"] 3 show ?thesis by simp
  qed
qed

lemma play_turns_rows:
  "play_turns (g, ai) ts = Inr (g', ai') \<Longrightarrow>
     round_num g' = round_num g + int (length ts) \<and>
     (\<exists>new. history g' = history g @ new \<and>
        map (\<lambda>r. (row_round r, row_actor r)) new = round_rows (round_num g) (length ts))"
proof (induction ts arbitrary: g ai)
  case Nil
  then show ?case by simp
next
  case (Cons t ts)
  from Cons.prems obtain g1 ai1 where
    t: "player_turn g ai (fst t) (fst (snd t)) (snd (snd t)) = Inr (g1, ai1)"
    and rest: "play_turns (g1, ai1) ts = Inr (g', ai')"
    by (auto split: sum.splits)
  from player_turn_step(3,5) [OF t] obtain p b where
    r1: "round_num g1 = round_num g + 1"
    and h1: "history g1 = history g @ [p, b]"
    and pb: "row_round p = round_num g" "row_actor p = ''player''"
            "row_round b = round_num g" "row_actor b = ''bot''"
    by blast
  from Cons.IH [OF rest] obtain new where
    r2: "round_num g' = round_num g1 + int (length ts)"
    and h2: "history g' = history g1 @ new"
    and m2: "map (\<lambda>r. (row_round r, row_actor r)) new = round_rows (round_num g1) (length ts)"
    by blast
  have "history g' = history g @ ([p, b] @ new)"
    using h1 h2 by simp
  moreover have "map (\<lambda>r. (row_round r, row_actor r)) ([p, b] @ new)
      = round_rows (round_num g) (length (t # ts))"
    using m2 pb r1 by simp
  moreover have "round_num g' = round_num g + int (length (t # ts))"
    using r1 r2 by simp
  ultimately show ?case by blast
qed

lemma player_turn_history_grows:
  "\<exists>new. history (fst (state_after (player_turn g ai claim bluff d))) = history g @ new"
proof -
  consider "hand (player g) = []" | "hand (player g) \<noteq> []" "hand (bot_state g) = []"
    | "hand (player g) \<noteq> []" "hand (bot_state g) \<noteq> []"
    by blast
  then show ?thesis
  proof cases
    case 1
    then show ?thesis by (simp add: player_turn_empty state_after_def)
  next
    case 2
    from player_half_fields [OF 2(1) refl refl, where ai = ai and claim = claim and d = d and bluff = bluff]
    obtain g1 p where h: "player_half g ai claim bluff d =
        Inr (g1, update_stats ai (played_card bluff (hand (player g))) claim bluff)"
      and bh: "hand (bot_state g1) = hand (bot_state g)" and h1: "history g1 = history g @ [p]"
      by blast
    from bh 2(2) have "bot_act g1 (update_stats ai (played_card bluff (hand (player g))) claim bluff) d
      = Inl (ValueError, g1)"
      by (simp add: bot_act_empty)
    with h h1 show ?thesis
      by (simp add: player_turn_def state_after_def)
  next
    case 3
    from player_turn_fields [OF 3 refl refl refl refl, where ai = ai and claim = claim and d = d and bluff = bluff]
    show ?thesis by (auto simp add: state_after_def)
  qed
qed

lemma play_turns_history_grows:
  "\<exists>new. history (fst (state_after (play_turns (g, ai) ts))) = history g @ new"
proof (induction ts arbitrary: g ai)
  case Nil
  then show ?case by (simp add: state_after_def)
next
  case (Cons t ts)
  from player_turn_history_grows [of g ai "fst t" "fst (snd t)" "snd (snd t)"]
  obtain new1 where
    n1: "history (fst (state_after (player_turn g ai (fst t) (fst (snd t)) (snd (snd t)))))
           = history g @ new1"
    by blast
  show ?case
  proof (cases "player_turn g ai (fst t) (fst (snd t)) (snd (snd t))")
    case (Inl e)
    with n1 show ?thesis by simp
  next
    case (Inr s)
    obtain g1 ai1 where s: "s = (g1, ai1)" by (cases s)
    from Cons.IH [of g1 ai1] obtain new2 where
      "history (fst (state_after (play_turns (g1, ai1) ts))) = history g1 @ new2"
      by blast
    with n1 Inr s show ?thesis by (simp add: state_after_def)
  qed
qed

lemma play_turns_terminal_inv:
  "play_turns (g, ai) ts = Inr (g', ai') \<Longrightarrow>
   (game_over g \<longleftrightarrow> round_num g > MAX_ROUNDS \<or> (hand (player g) = [] \<and> hand (bot_state g) = [])) \<Longrightarrow>
   (game_over g' \<longleftrightarrow> round_num g' > MAX_ROUNDS \<or> (hand (player g') = [] \<and> hand (bot_state g') = []))"
proof (induction ts arbitrary: g ai)
  case Nil
  then show ?case by simp
next
  case (Cons t ts)
  from Cons.prems(1) obtain g1 ai1 where
    t: "player_turn g ai (fst t) (fst (snd t)) (snd (snd t)) = Inr (g1, ai1)"
    and rest: "play_turns (g1, ai1) ts = Inr (g', ai')"
    by (auto split: sum.splits)
  from player_turn_Inr_nonempty [OF t] have ne: "hand (player g) \<noteq> []" by simp
  from player_turn_step(3,4) [OF t] have
    r1: "round_num g1 = round_num g + 1"
    and go1: "game_over g1 = (game_over g \<or> round_num g1 > MAX_ROUNDS
            \<or> (hand (player g1) = [] \<and> hand (bot_state g1) = []))"
    by simp_all
  have "game_over g1 \<longleftrightarrow> round_num g1 > MAX_ROUNDS \<or> (hand (player g1) = [] \<and> hand (bot_state g1) = [])"
    using go1 r1 ne Cons.prems(2) by auto
  from Cons.IH [OF rest this] show ?case .
qed

lemma play_turns_within_hands:
  "length (hand (player g)) = n \<Longrightarrow> length (hand (bot_state g)) = n \<Longrightarrow> length ts \<le> n \<Longrightarrow>
   \<exists>g' ai'. play_turns (g, ai) ts = Inr (g', ai')
      \<and> length (hand (player g')) = n - length ts
      \<and> length (hand (bot_state g')) = n - length ts"
proof (induction ts arbitrary: g ai n)
  case Nil
  then show ?case by simp
next
  case (Cons t ts)
  from Cons.prems have ne: "hand (player g) \<noteq> []" and bne: "hand (bot_state g) \<noteq> []"
    by auto
  from player_turn_fields [OF ne bne refl refl refl refl,
      where ai = ai and claim = "fst t" and d = "snd (snd t)" and bluff = "fst (snd t)"]
  obtain g1 ai1 where
    t: "player_turn g ai (fst t) (fst (snd t)) (snd (snd t)) = Inr (g1, ai1)"
    by blast
  from player_turn_step(1,2) [OF t] Cons.prems have
    l1: "length (hand (player g1)) = n - 1" "length (hand (bot_state g1)) = n - 1"
    by simp_all
  from Cons.prems have "length ts \<le> n - 1" by simp
  from Cons.IH [OF l1 this, of ai1] t show ?case
    by simp
qed

lemma play_turns_beyond_hands:
  "length (hand (player g)) = n \<Longrightarrow> length (hand (bot_state g)) = n \<Longrightarrow> n < length ts \<Longrightarrow>
   \<exists>s. play_turns (g, ai) ts = Inl (ValueError, s)"
proof (induction ts arbitrary: g ai n)
  case Nil
  then show ?case by simp
next
  case (Cons t ts)
  show ?case
  proof (cases n)
    case 0
    with Cons.prems have "hand (player g) = []" by simp
    then show ?thesis by (simp add: player_turn_empty)
  next
    case (Suc m)
    with Cons.prems have ne: "hand (player g) \<noteq> []" and bne: "hand (bot_state g) \<noteq> []"
      by auto
    from player_turn_fields [OF ne bne refl refl refl refl,
        where ai = ai and claim = "fst t" and d = "snd (snd t)" and bluff = "fst (snd t)"]
    obtain g1 ai1 where
      t: "player_turn g ai (fst t) (fst (snd t)) (snd (snd t)) = Inr (g1, ai1)"
      by blast
    from player_turn_step(1,2) [OF t] Cons.prems Suc have
      l1: "length (hand (player g1)) = m" "length (hand (bot_state g1)) = m"
      by simp_all
    from Cons.prems Suc have "m < length ts" by simp
    from Cons.IH [OF l1 this, of ai1] t show ?thesis
      by simp
  qed
qed

lemma player_turn_outcome:
  assumes ne: "hand (player g) \<noteq> []"
    and c: "c = played_card bluff (hand (player g))"
    and k: "k = fst (decide_call ai c claim (call_noise d))"
    and g': "g' = fst (state_after (player_turn g ai claim bluff d))"
  shows "hand (player g') = remove1 c (hand (player g))"
    and "score (player g') =
           score (player g) + (if (k \<and> \<not> bluff) \<or> (\<not> k \<and> bluff) then 1 else 0)"
    and "score (bot_state g') =
           score (bot_state g) + (if k \<and> bluff then 1 else 0)
             + (if hand (bot_state g) \<noteq> [] \<and> bluff_roll d < 30 / 100 then 1 else 0)"
    and "history g' ! length (history g) =
           \<lparr>row_round = round_num g, row_actor = ''player'', row_actual_strength = c,
              row_claim = claim, row_did_bluff = of_bool bluff, row_bot_called = of_bool k,
              row_result =
                (if k then (if bluff then ''Bot caught your bluff (+1 Bot)''
                            else ''Bot wrongly called bluff (+1 You)'')
                 else (if bluff then ''Your bluff succeeded (+1 You)''
                       else ''Honest play (no call)''))\<rparr>"
    and "snd (state_after (player_turn g ai claim bluff d)) = update_stats ai c claim bluff"
proof -
  from player_half_fields [OF ne c k]
  obtain g1 where h: "player_half g ai claim bluff d = Inr (g1, update_stats ai c claim bluff)"
    and f: "hand (player g1) = remove1 c (hand (player g))"
      "hand (bot_state g1) = hand (bot_state g)"
      "score (player g1) = score (player g) + (if (k \<and> \<not> bluff) \<or> (\<not> k \<and> bluff) then 1 else 0)"
      "score (bot_state g1) = score (bot_state g) + (if k \<and> bluff then 1 else 0)"
      "history g1 ! length (history g) =
           \<lparr>row_round = round_num g, row_actor = ''player'', row_actual_strength = c,
              row_claim = claim, row_did_bluff = of_bool bluff, row_bot_called = of_bool k,
              row_result =
                (if k then (if bluff then ''Bot caught your bluff (+1 Bot)''
                            else ''Bot wrongly called bluff (+1 You)'')
                 else (if bluff then ''Your bluff succeeded (+1 You)''
                       else ''Honest play (no call)''))\<rparr>"
    by (auto simp add: nth_append)
  have "hand (player g') = remove1 c (hand (player g))
    \<and> score (player g') = score (player g) + (if (k \<and> \<not> bluff) \<or> (\<not> k \<and> bluff) then 1 else 0)
    \<and> score (bot_state g') = score (bot_state g) + (if k \<and> bluff then 1 else 0)
             + (if hand (bot_state g) \<noteq> [] \<and> bluff_roll d < 30 / 100 then 1 else 0)
    \<and> history g' ! length (history g) =
           \<lparr>row_round = round_num g, row_actor = ''player'', row_actual_strength = c,
              row_claim = claim, row_did_bluff = of_bool bluff, row_bot_called = of_bool k,
              row_result =
                (if k then (if bluff then ''Bot caught your bluff (+1 Bot)''
                            else ''Bot wrongly called bluff (+1 You)'')
                 else (if bluff then ''Your bluff succeeded (+1 You)''
                       else ''Honest play (no call)''))\<rparr>
    \<and> snd (state_after (player_turn g ai claim bluff d)) = update_stats ai c claim bluff"
  proof (cases "hand (bot_state g) = []")
    case True
    with f(2) have "bot_act g1 (update_stats ai c claim bluff) d = Inl (ValueError, g1)"
      by (simp add: bot_act_empty)
    with h have "state_after (player_turn g ai claim bluff d) = (g1, update_stats ai c claim bluff)"
      by (simp add: player_turn_def state_after_def)
    with g' True f show ?thesis by simp
  next
    case False
    from player_turn_fields [OF ne False c k refl refl]
    obtain g2 where t: "player_turn g ai claim bluff d = Inr (g2, update_stats ai c claim bluff)"
      and f2: "hand (player g2) = remove1 c (hand (player g))"
        "score (player g2) = score (player g) + (if (k \<and> \<not> bluff) \<or> (\<not> k \<and> bluff) then 1 else 0)"
        "score (bot_state g2) = score (bot_state g) + (if k \<and> bluff then 1 else 0)
             + (if bluff_roll d < 30 / 100 then 1 else 0)"
        "history g2 ! length (history g) =
           \<lparr>row_round = round_num g, row_actor = ''player'', row_actual_strength = c,
              row_claim = claim, row_did_bluff = of_bool bluff, row_bot_called = of_bool k,
              row_result =
                (if k then (if bluff then ''Bot caught your bluff (+1 Bot)''
                            else ''Bot wrongly called bluff (+1 You)'')
                 else (if bluff then ''Your bluff succeeded (+1 You)''
                       else ''Honest play (no call)''))\<rparr>"
      by (auto simp add: nth_append)
    from t have "state_after (player_turn g ai claim bluff d) = (g2, update_stats ai c claim bluff)"
      by (simp add: state_after_def)
    with g' False f2 show ?thesis by simp
  qed
  then show "hand (player g') = remove1 c (hand (player g))"
    and "score (player g') =
           score (player g) + (if (k \<and> \<not> bluff) \<or> (\<not> k \<and> bluff) then 1 else 0)"
    and "score (bot_state g') =
           score (bot_state g) + (if k \<and> bluff then 1 else 0)
             + (if hand (bot_state g) \<noteq> [] \<and> bluff_roll d < 30 / 100 then 1 else 0)"
    and "history g' ! length (history g) =
           \<lparr>row_round = round_num g, row_actor = ''player'', row_actual_strength = c,
              row_claim = claim, row_did_bluff = of_bool bluff, row_bot_called = of_bool k,
              row_result =
                (if k then (if bluff then ''Bot caught your bluff (+1 Bot)''
                            else ''Bot wrongly called bluff (+1 You)'')
                 else (if bluff then ''Your bluff succeeded (+1 You)''
                       else ''Honest play (no call)''))\<rparr>"
    and "snd (state_after (player_turn g ai claim bluff d)) = update_stats ai c claim bluff"
    by simp_all
qed

lemma Inr_state_after: "\<not> isl r \<Longrightarrow> r = Inr (fst (state_after r), snd (state_after r))"
  by (cases r) (simp_all add: state_after_def)

lemma draw_hand_nonempty: "draw_hand HAND_SIZE xs \<Longrightarrow> length xs = 5"
  by (simp add: draw_hand_def randint_sample_def HAND_SIZE_def)

lemma np_choice_two: "np_choice [a, b] i = [a, b] ! (i mod 2)"
proof -
  have "length [a, b] = 2" by simp
  then show ?thesis by (simp only: np_choice_def)
qed

lemma np_choice_three: "np_choice [a, b, c] i = [a, b, c] ! (i mod 3)"
proof -
  have "length [a, b, c] = 3" by simp
  then show ?thesis by (simp only: np_choice_def)
qed

lemma np_choice_mem: "xs \<noteq> [] \<Longrightarrow> np_choice xs i \<in> set xs"
  by (simp add: np_choice_def)

subsection \<open>The concrete games\<close>

lemma fresh_game_hands:
  "hand (player fresh_game) \<noteq> []" "hand (bot_state fresh_game) \<noteq> []"
  by (simp_all add: fresh_game_def init_game_def)

lemma fresh_game_draws: "draw_hand HAND_SIZE [2, 9, 4, 7, 5]" "draw_hand HAND_SIZE [3, 8, 1, 6, 10]"
  by (simp_all add: draw_hand_def randint_sample_def HAND_SIZE_def)

lemma fresh_turn_eval:
  "(let r = player_turn fresh_game new_ai ''high'' False rolls_honest;
        g = fst (state_after r)
    in (isl r, game_over g, length (hand (player g)), length (hand (bot_state g)), round_num g,
        score (player g), score (bot_state g), row_result (history g ! 0)))
   = (False, False, 4, 4, 2, 0, 0, ''Honest play (no call)'')"
  by code_simp

lemma fresh_turn_returns: "\<not> isl (player_turn fresh_game new_ai ''high'' False rolls_honest)"
  using fresh_turn_eval by (simp add: Let_def)

lemma five_turns_eval:
  "(let r = play_turns (fresh_game, new_ai) five_turns;
        g = fst (state_after r)
    in (isl r, hand (player g), hand (bot_state g), round_num g, game_over g,
        length (history g), map row_round (history g), map row_actor (history g)))
   = (False, [], [], 6, True, 10, [1, 1, 2, 2, 3, 3, 4, 4, 5, 5],
      [''player'', ''bot'', ''player'', ''bot'', ''player'', ''bot'', ''player'', ''bot'',
       ''player'', ''bot''])"
  by code_simp

lemma five_turns_return: "\<not> isl (play_turns (fresh_game, new_ai) five_turns)"
  using five_turns_eval by (simp add: Let_def)

lemma played_out_game_fields:
  "hand (player played_out_game) = []"
  "hand (bot_state played_out_game) = []"
  "round_num played_out_game = 6"
  "game_over played_out_game"
  "length (history played_out_game) = 10"
  "map row_round (history played_out_game) = [1, 1, 2, 2, 3, 3, 4, 4, 5, 5]"
  "map row_actor (history played_out_game) =
     [''player'', ''bot'', ''player'', ''bot'', ''player'', ''bot'', ''player'', ''bot'',
      ''player'', ''bot'']"
  using five_turns_eval by (simp_all add: Let_def played_out_game_def)

lemma scoring_eval:
  "(let a = fst (state_after (player_turn fresh_game new_ai ''high'' True rolls_honest));
        b = fst (state_after (player_turn fresh_game wary_ai ''high'' False rolls_honest));
        c = fst (state_after (player_turn fresh_game wary_ai ''high'' True rolls_bluff))
    in (score (player a), score (bot_state a), score (player b), score (bot_state b),
        score (player c), score (bot_state c)))
   = (1, 0, 1, 0, 0, 2)"
  by code_simp

lemma scoring_examples:
  "score (player (fst (state_after (player_turn fresh_game new_ai ''high'' False rolls_honest)))) = 0"
  "score (bot_state (fst (state_after (player_turn fresh_game new_ai ''high'' False rolls_honest)))) = 0"
  "row_result (history (fst (state_after (player_turn fresh_game new_ai ''high'' False rolls_honest))) ! 0)
     = ''Honest play (no call)''"
  "score (player (fst (state_after (player_turn fresh_game new_ai ''high'' True rolls_honest)))) = 1"
  "score (bot_state (fst (state_after (player_turn fresh_game new_ai ''high'' True rolls_honest)))) = 0"
  "score (player (fst (state_after (player_turn fresh_game wary_ai ''high'' False rolls_honest)))) = 1"
  "score (bot_state (fst (state_after (player_turn fresh_game wary_ai ''high'' False rolls_honest)))) = 0"
  "score (player (fst (state_after (player_turn fresh_game wary_ai ''high'' True rolls_bluff)))) = 0"
  "score (bot_state (fst (state_after (player_turn fresh_game wary_ai ''high'' True rolls_bluff)))) = 2"
  using fresh_turn_eval scoring_eval by (simp_all add: Let_def)

lemma finished_game_fields:
  "game_over finished_game"
  "hand (player finished_game) \<noteq> []"
  "hand (bot_state finished_game) \<noteq> []"
  "round_num finished_game = 11"
  "history finished_game = []"
  by (simp_all add: finished_game_def init_game_def)

lemma fresh_turn_fields:
  "\<not> game_over (fst (state_after (player_turn fresh_game new_ai ''high'' False rolls_honest)))"
  "length (hand (player (fst (state_after (player_turn fresh_game new_ai ''high'' False rolls_honest))))) = 4"
  "length (hand (bot_state (fst (state_after (player_turn fresh_game new_ai ''high'' False rolls_honest))))) = 4"
  "round_num (fst (state_after (player_turn fresh_game new_ai ''high'' False rolls_honest))) = 2"
  using fresh_turn_eval by (simp_all add: Let_def)

lemma sixth_turn_raises:
  "isl (play_turns (fresh_game, new_ai) (five_turns @ [(''low'', False, rolls_honest)]))"
  "game_over (fst (state_after (play_turns (played_out_game, new_ai) [(''low'', False, rolls_honest)])))"
proof -
  have lp: "length (hand (player fresh_game)) = 5"
    and lb: "length (hand (bot_state fresh_game)) = 5"
    by (simp_all add: fresh_game_def init_game_def)
  have "5 < length (five_turns @ [(''low'', False, rolls_honest)])"
    by (simp add: five_turns_def)
  from play_turns_beyond_hands [OF lp lb this, of new_ai]
  show "isl (play_turns (fresh_game, new_ai) (five_turns @ [(''low'', False, rolls_honest)]))"
    by auto
  show "game_over (fst (state_after
          (play_turns (played_out_game, new_ai) [(''low'', False, rolls_honest)])))"
    using played_out_game_fields(4) by (rule play_turns_game_over_kept)
qed

lemma paired_turn_eval:
  "(let a = fst (state_after (player_turn paired_game new_ai ''high'' True rolls_honest));
        b = fst (state_after (player_turn paired_game new_ai ''high'' False rolls_honest))
    in (hand (player a), hand (player b),
        row_actual_strength (history a ! 0), row_actual_strength (history b ! 0)))
   = ([7, 3], [3, 3], 3, 7)"
  by code_simp

lemma card_examples:
  "hand (player paired_game) \<noteq> []"
  "hand (player paired_game) = [3, 7, 3]"
  "hand (player (fst (state_after (player_turn paired_game new_ai ''high'' True rolls_honest)))) = [7, 3]"
  "hand (player (fst (state_after (player_turn paired_game new_ai ''high'' False rolls_honest)))) = [3, 3]"
  "row_actual_strength (history (fst (state_after (player_turn paired_game new_ai ''high'' True rolls_honest))) ! 0) = 3"
  "row_actual_strength (history (fst (state_after (player_turn paired_game new_ai ''high'' False rolls_honest))) ! 0) = 7"
  using paired_turn_eval by (simp_all add: Let_def paired_game_def init_game_def)

lemma bot_examples:
  "bot_act fresh_game new_ai rolls_bluff = bot_act fresh_game wary_ai rolls_bluff"
  "\<not> isl (bot_act fresh_game new_ai rolls_bluff)"
  "hand (bot_state (projr (bot_act fresh_game new_ai rolls_bluff))) = [3, 8, 6, 10]"
  "score (bot_state (projr (bot_act fresh_game new_ai rolls_bluff))) = 1"
  "row_claim (last (history (projr (bot_act fresh_game new_ai rolls_bluff)))) = ''medium''"
  "row_bot_called (last (history (projr (bot_act fresh_game new_ai rolls_bluff)))) = 0"
  "hand (bot_state (projr (bot_act fresh_game new_ai rolls_honest))) = [3, 8, 1, 6]"
  "score (bot_state (projr (bot_act fresh_game new_ai rolls_honest))) = 0"
  "row_claim (last (history (projr (bot_act fresh_game new_ai rolls_honest)))) = ''medium''"
  by code_simp+

section \<open>The player's turn\<close>

text \<open>
  Claim C8. In every player turn with a non-empty player hand: with the bluff intention
  the card played is the minimum strength of the hand, otherwise the maximum, and exactly
  one instance of that value is removed from the hand, which shrinks by one card. The
  card is also the strength the player's log row records. This holds whether the call
  returns or raises in the bot's half.
\<close>

theorem player_plays_weakest_or_strongest:
  assumes "hand (player g) \<noteq> []"
  shows "let c = (if bluff then Min (set (hand (player g))) else Max (set (hand (player g))));
             g' = fst (state_after (player_turn g ai claim bluff d))
         in c \<in> set (hand (player g)) \<and>
            hand (player g') = remove1 c (hand (player g)) \<and>
            mset (hand (player g')) = mset (hand (player g)) - {#c#} \<and>
            length (hand (player g')) + 1 = length (hand (player g)) \<and>
            row_actual_strength (history g' ! length (history g)) = c"
  unfolding Let_def played_card_def [symmetric]
  using player_turn_outcome(1,4) [OF assms refl refl refl,
      where bluff = bluff and ai = ai and claim = claim and d = d]
    played_card_in [OF assms, of bluff] length_remove_played [OF assms, of bluff]
  by simp

theorem player_plays_weakest_or_strongest_witness:
  "hand (player paired_game) \<noteq> [] \<and>
   hand (player paired_game) = [3, 7, 3] \<and>
   hand (player (fst (state_after (player_turn paired_game new_ai ''high'' True rolls_honest)))) = [7, 3] \<and>
   hand (player (fst (state_after (player_turn paired_game new_ai ''high'' False rolls_honest)))) = [3, 3] \<and>
   row_actual_strength (history (fst (state_after (player_turn paired_game new_ai ''high'' True rolls_honest))) ! 0) = 3 \<and>
   row_actual_strength (history (fst (state_after (player_turn paired_game new_ai ''high'' False rolls_honest))) ! 0) = 7"
  using card_examples
    player_plays_weakest_or_strongest [OF card_examples(1),
      where bluff = True and ai = new_ai and claim = "''high''" and d = rolls_honest]
  by blast

text \<open>
  Claim C2. In every player turn the scores follow the table on (bluff intention,
  called): bluff and called gives the bot one point; honest and called gives the player
  one point; bluff and not called gives the player one point; honest and not called
  changes no score, and the result tag logged is then \<^verbatim>\<open>Honest play (no call)\<close>. The
  only other change of a score during the call is the point the bot takes in its own
  half for its own bluff.
\<close>

theorem player_turn_scoring_table:
  assumes "hand (player g) \<noteq> []"
  shows "let c = (if bluff then Min (set (hand (player g))) else Max (set (hand (player g))));
             called = fst (decide_call ai c claim (call_noise d));
             bot_bluffs = (hand (bot_state g) \<noteq> [] \<and> bluff_roll d < 30 / 100);
             g' = fst (state_after (player_turn g ai claim bluff d));
             row = history g' ! length (history g)
         in score (bot_state g') =
              score (bot_state g) + (if bluff \<and> called then 1 else 0) + (if bot_bluffs then 1 else 0) \<and>
            score (player g') =
              score (player g) + (if (\<not> bluff \<and> called) \<or> (bluff \<and> \<not> called) then 1 else 0) \<and>
            row_actor row = ''player'' \<and>
            row_did_bluff row = of_bool bluff \<and>
            row_bot_called row = of_bool called \<and>
            row_result row =
              (if called then (if bluff then ''Bot caught your bluff (+1 Bot)''
                               else ''Bot wrongly called bluff (+1 You)'')
               else (if bluff then ''Your bluff succeeded (+1 You)''
                     else ''Honest play (no call)''))"
  unfolding Let_def played_card_def [symmetric]
  using player_turn_outcome(2,3,4) [OF assms refl refl refl,
      where bluff = bluff and ai = ai and claim = claim and d = d]
  by auto

theorem player_turn_scoring_table_witness:
  "hand (player fresh_game) \<noteq> [] \<and>
   score (player (fst (state_after (player_turn fresh_game new_ai ''high'' False rolls_honest)))) = 0 \<and>
   score (bot_state (fst (state_after (player_turn fresh_game new_ai ''high'' False rolls_honest)))) = 0 \<and>
   row_result (history (fst (state_after (player_turn fresh_game new_ai ''high'' False rolls_honest))) ! 0)
     = ''Honest play (no call)'' \<and>
   score (player (fst (state_after (player_turn fresh_game new_ai ''high'' True rolls_honest)))) = 1 \<and>
   score (bot_state (fst (state_after (player_turn fresh_game new_ai ''high'' True rolls_honest)))) = 0 \<and>
   score (player (fst (state_after (player_turn fresh_game wary_ai ''high'' False rolls_honest)))) = 1 \<and>
   score (bot_state (fst (state_after (player_turn fresh_game wary_ai ''high'' False rolls_honest)))) = 0 \<and>
   score (player (fst (state_after (player_turn fresh_game wary_ai ''high'' True rolls_bluff)))) = 0 \<and>
   score (bot_state (fst (state_after (player_turn fresh_game wary_ai ''high'' True rolls_bluff)))) = 2"
  using fresh_game_hands(1) scoring_examples
    player_turn_scoring_table [OF fresh_game_hands(1),
      where bluff = False and ai = new_ai and claim = "''high''" and d = rolls_honest]
  by blast

text \<open>
  Claim C3, as stated: a call of \<^verbatim>\<open>player_turn\<close> on an empty hand, on a game that is
  already terminal or with an unrecognised claim is rejected with an error and leaves
  game, belief model, scores and history unchanged. It fails twice. On a fresh game, a
  claim that \<^verbatim>\<open>claim_to_strength\<close> does not know is accepted: the call returns normally,
  having played a card, logged two rows, advanced the round and recorded the claim in
  the belief model. On a game past the round limit whose terminal flag is set, with
  cards left in both hands, the call returns normally as well and plays the turn.
\<close>

theorem invalid_turn_accepted_counterexample:
  "claim_to_strength ''bogus'' = Inl KeyError \<and>
   \<not> isl (player_turn fresh_game new_ai ''bogus'' False rolls_honest) \<and>
   history fresh_game = [] \<and>
   length (history (fst (state_after (player_turn fresh_game new_ai ''bogus'' False rolls_honest)))) = 2 \<and>
   round_num fresh_game = 1 \<and>
   round_num (fst (state_after (player_turn fresh_game new_ai ''bogus'' False rolls_honest))) = 2 \<and>
   hand (player fresh_game) = [2, 9, 4, 7, 5] \<and>
   hand (player (fst (state_after (player_turn fresh_game new_ai ''bogus'' False rolls_honest))))
     = [2, 4, 7, 5] \<and>
   context_stats new_ai (''strong'', ''bogus'') = None \<and>
   context_stats (snd (state_after (player_turn fresh_game new_ai ''bogus'' False rolls_honest)))
     (''strong'', ''bogus'') = Some (0, 1) \<and>
   game_over finished_game \<and>
   \<not> isl (player_turn finished_game new_ai ''high'' True rolls_bluff) \<and>
   round_num finished_game = 11 \<and>
   round_num (fst (state_after (player_turn finished_game new_ai ''high'' True rolls_bluff))) = 12 \<and>
   score (player finished_game) = 0 \<and>
   score (player (fst (state_after (player_turn finished_game new_ai ''high'' True rolls_bluff)))) = 1 \<and>
   length (history (fst (state_after (player_turn finished_game new_ai ''high'' True rolls_bluff)))) = 2"
proof -
  have "(let r = player_turn fresh_game new_ai ''bogus'' False rolls_honest;
             g = fst (state_after r)
         in (isl r, length (history g), round_num g, hand (player g),
             context_stats (snd (state_after r)) (''strong'', ''bogus'')))
        = (False, 2, 2, [2, 4, 7, 5], Some (0, 1))"
    by code_simp
  then have bogus:
    "\<not> isl (player_turn fresh_game new_ai ''bogus'' False rolls_honest)"
    "length (history (fst (state_after (player_turn fresh_game new_ai ''bogus'' False rolls_honest)))) = 2"
    "round_num (fst (state_after (player_turn fresh_game new_ai ''bogus'' False rolls_honest))) = 2"
    "hand (player (fst (state_after (player_turn fresh_game new_ai ''bogus'' False rolls_honest))))
       = [2, 4, 7, 5]"
    "context_stats (snd (state_after (player_turn fresh_game new_ai ''bogus'' False rolls_honest)))
       (''strong'', ''bogus'') = Some (0, 1)"
    by (simp_all add: Let_def)
  have "(let r = player_turn finished_game new_ai ''high'' True rolls_bluff;
             g = fst (state_after r)
         in (isl r, round_num g, score (player g), length (history g)))
        = (False, 12, 1, 2)"
    by code_simp
  then have late:
    "\<not> isl (player_turn finished_game new_ai ''high'' True rolls_bluff)"
    "round_num (fst (state_after (player_turn finished_game new_ai ''high'' True rolls_bluff))) = 12"
    "score (player (fst (state_after (player_turn finished_game new_ai ''high'' True rolls_bluff)))) = 1"
    "length (history (fst (state_after (player_turn finished_game new_ai ''high'' True rolls_bluff)))) = 2"
    by (simp_all add: Let_def)
  have start:
    "claim_to_strength ''bogus'' = Inl KeyError"
    "history fresh_game = []"
    "round_num fresh_game = 1"
    "hand (player fresh_game) = [2, 9, 4, 7, 5]"
    "context_stats new_ai (''strong'', ''bogus'') = None"
    "game_over finished_game"
    "round_num finished_game = 11"
    "score (player finished_game) = 0"
    by (simp_all add: claim_to_strength_def fresh_game_def finished_game_def init_game_def
        new_ai_def)
  show ?thesis
    using bogus late start by blast
qed

text \<open>
  Claim C3, amended: \<^verbatim>\<open>player_turn\<close> checks nothing itself. With an empty player hand
  it raises the ValueError of \<^verbatim>\<open>min\<close> or \<^verbatim>\<open>max\<close> before any mutation: the game and the
  belief model are left as they were. With two non-empty hands it returns normally for
  every claim string and every value of the terminal flag, and carries the turn out.
\<close>

theorem player_turn_validates_nothing:
  "(hand (player g) = [] \<longrightarrow> player_turn g ai claim bluff d = Inl (ValueError, g, ai)) \<and>
   (hand (player g) \<noteq> [] \<and> hand (bot_state g) \<noteq> [] \<longrightarrow>
      (\<exists>g' ai'. player_turn g ai claim bluff d = Inr (g', ai') \<and>
         round_num g' = round_num g + 1 \<and>
         length (history g') = length (history g) + 2))"
proof (intro conjI impI)
  assume "hand (player g) = []"
  then show "player_turn g ai claim bluff d = Inl (ValueError, g, ai)"
    by (rule player_turn_empty)
next
  assume "hand (player g) \<noteq> [] \<and> hand (bot_state g) \<noteq> []"
  then have ne: "hand (player g) \<noteq> []" and bne: "hand (bot_state g) \<noteq> []"
    by simp_all
  from player_turn_fields [OF ne bne refl refl refl refl,
      where ai = ai and claim = claim and d = d and bluff = bluff]
  obtain g' where t: "player_turn g ai claim bluff d =
      Inr (g', update_stats ai (played_card bluff (hand (player g))) claim bluff)"
    and r: "round_num g' = round_num g + 1"
    and h: "length (history g') = length (history g) + 2"
    by auto
  then show "\<exists>g' ai'. player_turn g ai claim bluff d = Inr (g', ai') \<and>
         round_num g' = round_num g + 1 \<and>
         length (history g') = length (history g) + 2"
    by blast
qed

theorem player_turn_validates_nothing_witness:
  "hand (player played_out_game) = [] \<and>
   player_turn played_out_game wary_ai ''high'' False rolls_honest
     = Inl (ValueError, played_out_game, wary_ai) \<and>
   hand (player finished_game) \<noteq> [] \<and> hand (bot_state finished_game) \<noteq> [] \<and>
   (\<exists>g' ai'. player_turn finished_game new_ai ''bogus'' False rolls_honest = Inr (g', ai') \<and>
      round_num g' = round_num finished_game + 1 \<and>
      length (history g') = length (history finished_game) + 2)"
  using played_out_game_fields(1) finished_game_fields(2,3)
    player_turn_validates_nothing [where g = played_out_game and ai = wary_ai
      and claim = "''high''" and bluff = False and d = rolls_honest]
    player_turn_validates_nothing [where g = finished_game and ai = new_ai
      and claim = "''bogus''" and bluff = False and d = rolls_honest]
  by blast

section \<open>The bot's turn\<close>

text \<open>
  Claim C9. For every bot turn with a non-empty bot hand: the bot bluffs exactly when
  the uniform draw \<^verbatim>\<open>np.random.rand()\<close> is below 0.30, whatever the belief model is; when
  bluffing it plays its weakest card and its claim is the element of \<open>[medium, high]\<close> at
  the uniformly drawn index; when honest it plays its strongest card and its claim is
  the element of \<open>[low, medium, high]\<close> at the drawn index; its score grows by exactly one
  if and only if it bluffed; it appends exactly one row, with \<^verbatim>\<open>bot_called\<close> 0.
\<close>

theorem bot_act_policy:
  assumes "hand (bot_state g) \<noteq> []"
  shows "\<exists>g'. bot_act g ai d = Inr g' \<and> bot_act g ai_other d = Inr g' \<and>
     (let bluff = (bluff_roll d < 30 / 100);
          c = (if bluff then Min (set (hand (bot_state g))) else Max (set (hand (bot_state g))));
          row = last (history g')
      in hand (bot_state g') = remove1 c (hand (bot_state g)) \<and>
         c \<in> set (hand (bot_state g)) \<and>
         score (bot_state g') = score (bot_state g) + (if bluff then 1 else 0) \<and>
         player g' = player g \<and>
         round_num g' = round_num g \<and>
         history g' = history g @ [row] \<and>
         row_actor row = ''bot'' \<and>
         row_round row = round_num g \<and>
         row_actual_strength row = c \<and>
         row_did_bluff row = of_bool bluff \<and>
         row_bot_called row = 0 \<and>
         row_claim row = (if bluff then [''medium'', ''high''] ! (claim_pick d mod 2)
                          else [''low'', ''medium'', ''high''] ! (claim_pick d mod 3)) \<and>
         row_claim row \<in> (if bluff then {''medium'', ''high''} else {''low'', ''medium'', ''high''})) \<and>
     np_choice [''medium'', ''high''] 0 = ''medium'' \<and>
     np_choice [''medium'', ''high''] 1 = ''high'' \<and>
     np_choice [''low'', ''medium'', ''high''] 0 = ''low'' \<and>
     np_choice [''low'', ''medium'', ''high''] 1 = ''medium'' \<and>
     np_choice [''low'', ''medium'', ''high''] 2 = ''high''"
proof -
  from bot_act_fields [OF assms refl refl, where ai = ai and d = d]
  obtain g' where a: "bot_act g ai d = Inr g'"
    and f: "hand (bot_state g') = remove1 (played_card (bluff_roll d < 30 / 100) (hand (bot_state g))) (hand (bot_state g))"
      "score (bot_state g') = score (bot_state g) + (if bluff_roll d < 30 / 100 then 1 else 0)"
      "player g' = player g"
      "round_num g' = round_num g"
      "history g' = history g @
                [\<lparr>row_round = round_num g, row_actor = ''bot'',
                   row_actual_strength = played_card (bluff_roll d < 30 / 100) (hand (bot_state g)),
                   row_claim = (if bluff_roll d < 30 / 100 then np_choice [''medium'', ''high''] (claim_pick d)
                                else np_choice [''low'', ''medium'', ''high''] (claim_pick d)),
                   row_did_bluff = of_bool (bluff_roll d < 30 / 100), row_bot_called = 0,
                   row_result = (if bluff_roll d < 30 / 100 then ''Bot bluff succeeded (+1 Bot)''
                                 else ''Bot honest play'')\<rparr>]"
    by blast
  have same: "bot_act g ai_other d = bot_act g ai d"
    by (simp add: bot_act_def)
  define bluff where "bluff = (bluff_roll d < 30 / 100)"
  define row where "row = last (history g')"
  have hrow: "history g' = history g @ [row]"
    and row: "row = \<lparr>row_round = round_num g, row_actor = ''bot'',
                   row_actual_strength = played_card bluff (hand (bot_state g)),
                   row_claim = (if bluff then np_choice [''medium'', ''high''] (claim_pick d)
                                else np_choice [''low'', ''medium'', ''high''] (claim_pick d)),
                   row_did_bluff = of_bool bluff, row_bot_called = 0,
                   row_result = (if bluff then ''Bot bluff succeeded (+1 Bot)''
                                 else ''Bot honest play'')\<rparr>"
    unfolding row_def bluff_def using f(5) by simp_all
  have c2: "np_choice [''medium'', ''high''] (claim_pick d)
      = [''medium'', ''high''] ! (claim_pick d mod 2)"
    and c3: "np_choice [''low'', ''medium'', ''high''] (claim_pick d)
      = [''low'', ''medium'', ''high''] ! (claim_pick d mod 3)"
    by (rule np_choice_two, rule np_choice_three)
  have m2: "np_choice [''medium'', ''high''] (claim_pick d) \<in> {''medium'', ''high''}"
    using np_choice_mem [of "[''medium'', ''high'']" "claim_pick d"] by simp
  have m3: "np_choice [''low'', ''medium'', ''high''] (claim_pick d) \<in> {''low'', ''medium'', ''high''}"
    using np_choice_mem [of "[''low'', ''medium'', ''high'']" "claim_pick d"] by simp
  have claim_eq: "row_claim row = (if bluff then [''medium'', ''high''] ! (claim_pick d mod 2)
                          else [''low'', ''medium'', ''high''] ! (claim_pick d mod 3))"
    unfolding row using c2 c3 by (cases bluff) simp_all
  have claim_in: "row_claim row \<in> (if bluff then {''medium'', ''high''} else {''low'', ''medium'', ''high''})"
    unfolding row using m2 m3 by (cases bluff) simp_all
  have card: "played_card bluff (hand (bot_state g)) =
      (if bluff then Min (set (hand (bot_state g))) else Max (set (hand (bot_state g))))"
    by (simp add: played_card_def)
  have rest: "row_actor row = ''bot''" "row_round row = round_num g"
    "row_actual_strength row = played_card bluff (hand (bot_state g))"
    "row_did_bluff row = of_bool bluff" "row_bot_called row = 0"
    unfolding row by simp_all
  have "let bluff = (bluff_roll d < 30 / 100);
          c = (if bluff then Min (set (hand (bot_state g))) else Max (set (hand (bot_state g))));
          row = last (history g')
      in hand (bot_state g') = remove1 c (hand (bot_state g)) \<and>
         c \<in> set (hand (bot_state g)) \<and>
         score (bot_state g') = score (bot_state g) + (if bluff then 1 else 0) \<and>
         player g' = player g \<and>
         round_num g' = round_num g \<and>
         history g' = history g @ [row] \<and>
         row_actor row = ''bot'' \<and>
         row_round row = round_num g \<and>
         row_actual_strength row = c \<and>
         row_did_bluff row = of_bool bluff \<and>
         row_bot_called row = 0 \<and>
         row_claim row = (if bluff then [''medium'', ''high''] ! (claim_pick d mod 2)
                          else [''low'', ''medium'', ''high''] ! (claim_pick d mod 3)) \<and>
         row_claim row \<in> (if bluff then {''medium'', ''high''} else {''low'', ''medium'', ''high''})"
    unfolding Let_def bluff_def [symmetric] row_def [symmetric] card [symmetric]
    using f(1-4) [folded bluff_def] played_card_in [OF assms, of bluff] hrow claim_eq claim_in rest
    by (intro conjI) assumption+
  moreover have "np_choice [''medium'', ''high''] 0 = ''medium''"
    "np_choice [''medium'', ''high''] 1 = ''high''"
    "np_choice [''low'', ''medium'', ''high''] 0 = ''low''"
    "np_choice [''low'', ''medium'', ''high''] 1 = ''medium''"
    "np_choice [''low'', ''medium'', ''high''] 2 = ''high''"
    by (simp_all add: np_choice_def)
  ultimately show ?thesis
    using a same by simp
qed

theorem bot_act_policy_witness:
  "hand (bot_state fresh_game) \<noteq> [] \<and>
   bot_act fresh_game new_ai rolls_bluff = bot_act fresh_game wary_ai rolls_bluff \<and>
   \<not> isl (bot_act fresh_game new_ai rolls_bluff) \<and>
   hand (bot_state (projr (bot_act fresh_game new_ai rolls_bluff))) = [3, 8, 6, 10] \<and>
   score (bot_state (projr (bot_act fresh_game new_ai rolls_bluff))) = 1 \<and>
   row_claim (last (history (projr (bot_act fresh_game new_ai rolls_bluff)))) = ''medium'' \<and>
   row_bot_called (last (history (projr (bot_act fresh_game new_ai rolls_bluff)))) = 0 \<and>
   hand (bot_state (projr (bot_act fresh_game new_ai rolls_honest))) = [3, 8, 1, 6] \<and>
   score (bot_state (projr (bot_act fresh_game new_ai rolls_honest))) = 0 \<and>
   row_claim (last (history (projr (bot_act fresh_game new_ai rolls_honest)))) = ''medium''"
  using fresh_game_hands(2) bot_examples
    bot_act_policy [OF fresh_game_hands(2), where ai = new_ai and ai_other = wary_ai and d = rolls_bluff]
  by blast

section \<open>Rounds, the history and termination\<close>

text \<open>
  Claim C6. The call of \<^verbatim>\<open>player_turn\<close> that returns sets the terminal flag exactly
  when the flag was set before, or the new round number exceeds 10, or both hands are
  empty. Hence after every sequence of turns from a fresh game the flag is set exactly
  when the round number exceeds 10 or both hands are empty. Once set, the flag stays set
  through every later call, returning or raising.
\<close>

theorem terminal_flag_set_and_kept:
  "(player_turn g ai claim bluff d = Inr (g', ai') \<longrightarrow>
      (game_over g' \<longleftrightarrow> game_over g \<or> round_num g' > MAX_ROUNDS
          \<or> (hand (player g') = [] \<and> hand (bot_state g') = []))) \<and>
   (draw_hand HAND_SIZE ph \<and> draw_hand HAND_SIZE bh
      \<and> play_turns (init_game ai_init ph bh, ai_init) ts = Inr (g_end, ai_end) \<longrightarrow>
      (game_over g_end \<longleftrightarrow> round_num g_end > MAX_ROUNDS
          \<or> (hand (player g_end) = [] \<and> hand (bot_state g_end) = []))) \<and>
   (game_over g_over \<longrightarrow> game_over (fst (state_after (play_turns (g_over, ai_over) later))))"
proof (intro conjI impI)
  assume "player_turn g ai claim bluff d = Inr (g', ai')"
  from player_turn_step(4) [OF this]
  show "game_over g' \<longleftrightarrow> game_over g \<or> round_num g' > MAX_ROUNDS
          \<or> (hand (player g') = [] \<and> hand (bot_state g') = [])" .
next
  assume a: "draw_hand HAND_SIZE ph \<and> draw_hand HAND_SIZE bh
      \<and> play_turns (init_game ai_init ph bh, ai_init) ts = Inr (g_end, ai_end)"
  then have "length ph = 5" by (simp add: draw_hand_nonempty)
  then have "ph \<noteq> []" by auto
  then have init: "game_over (init_game ai_init ph bh) \<longleftrightarrow>
      round_num (init_game ai_init ph bh) > MAX_ROUNDS
        \<or> (hand (player (init_game ai_init ph bh)) = [] \<and> hand (bot_state (init_game ai_init ph bh)) = [])"
    by (simp add: init_game_def MAX_ROUNDS_def)
  from a have "play_turns (init_game ai_init ph bh, ai_init) ts = Inr (g_end, ai_end)" by simp
  from play_turns_terminal_inv [OF this init]
  show "game_over g_end \<longleftrightarrow> round_num g_end > MAX_ROUNDS
          \<or> (hand (player g_end) = [] \<and> hand (bot_state g_end) = [])" .
next
  assume "game_over g_over"
  then show "game_over (fst (state_after (play_turns (g_over, ai_over) later)))"
    by (rule play_turns_game_over_kept)
qed

theorem terminal_flag_set_and_kept_witness:
  "player_turn fresh_game new_ai ''high'' False rolls_honest =
     Inr (fst (state_after (player_turn fresh_game new_ai ''high'' False rolls_honest)),
          snd (state_after (player_turn fresh_game new_ai ''high'' False rolls_honest))) \<and>
   \<not> game_over (fst (state_after (player_turn fresh_game new_ai ''high'' False rolls_honest))) \<and>
   draw_hand HAND_SIZE [2, 9, 4, 7, 5] \<and> draw_hand HAND_SIZE [3, 8, 1, 6, 10] \<and>
   play_turns (init_game new_ai [2, 9, 4, 7, 5] [3, 8, 1, 6, 10], new_ai) five_turns =
     Inr (played_out_game, snd (state_after (play_turns (fresh_game, new_ai) five_turns))) \<and>
   game_over played_out_game \<and>
   hand (player played_out_game) = [] \<and> hand (bot_state played_out_game) = [] \<and>
   round_num played_out_game = 6 \<and>
   game_over (fst (state_after (play_turns (played_out_game, new_ai) [(''low'', False, rolls_honest)])))"
proof -
  have t: "player_turn fresh_game new_ai ''high'' False rolls_honest =
     Inr (fst (state_after (player_turn fresh_game new_ai ''high'' False rolls_honest)),
          snd (state_after (player_turn fresh_game new_ai ''high'' False rolls_honest)))"
    using fresh_turn_returns by (rule Inr_state_after)
  have p: "play_turns (init_game new_ai [2, 9, 4, 7, 5] [3, 8, 1, 6, 10], new_ai) five_turns =
     Inr (played_out_game, snd (state_after (play_turns (fresh_game, new_ai) five_turns)))"
    using Inr_state_after [OF five_turns_return]
    by (simp add: played_out_game_def fresh_game_def)
  show ?thesis
    using t p fresh_game_draws played_out_game_fields(1-4) fresh_turn_fields(1)
      terminal_flag_set_and_kept [where g = fresh_game and ai = new_ai and claim = "''high''"
        and bluff = False and d = rolls_honest
        and g' = "fst (state_after (player_turn fresh_game new_ai ''high'' False rolls_honest))"
        and ai' = "snd (state_after (player_turn fresh_game new_ai ''high'' False rolls_honest))"
        and ph = "[2, 9, 4, 7, 5]" and bh = "[3, 8, 1, 6, 10]" and ai_init = new_ai
        and ts = five_turns and g_end = played_out_game
        and ai_end = "snd (state_after (play_turns (fresh_game, new_ai) five_turns))"
        and g_over = played_out_game and ai_over = new_ai
        and later = "[(''low'', False, rolls_honest)]"]
    by blast
qed

text \<open>
  Claim C7. After \<open>N\<close> completed rounds from a fresh game the history holds exactly
  \<open>2 * N\<close> rows; row \<open>i\<close> carries the round number \<open>1 + i div 2\<close>, the round in which
  the action occurred, and is the player's row for even \<open>i\<close> and the bot's for odd \<open>i\<close>;
  the round numbers are non-decreasing. The history only grows at its end: after any
  sequence of calls from any state the old history is a prefix of the new one.
\<close>

theorem history_two_rows_per_round:
  "(play_turns (init_game ai_init ph bh, ai_init) ts = Inr (g', ai') \<longrightarrow>
      length (history g') = 2 * length ts \<and>
      sorted (map row_round (history g')) \<and>
      (\<forall>i. i < 2 * length ts \<longrightarrow>
         row_round (history g' ! i) = 1 + int (i div 2) \<and>
         row_actor (history g' ! i) = (if even i then ''player'' else ''bot''))) \<and>
   (\<exists>new. history (fst (state_after (play_turns (g, ai) turns))) = history g @ new)"
proof (intro conjI impI allI)
  assume a: "play_turns (init_game ai_init ph bh, ai_init) ts = Inr (g', ai')"
  from play_turns_rows [OF a] obtain new where
    h: "history g' = history (init_game ai_init ph bh) @ new"
    and m: "map (\<lambda>r. (row_round r, row_actor r)) new
              = round_rows (round_num (init_game ai_init ph bh)) (length ts)"
    by blast
  from h have hn: "history g' = new" by (simp add: init_game_def)
  from m hn have rows: "map (\<lambda>r. (row_round r, row_actor r)) (history g') = round_rows 1 (length ts)"
    by (simp add: init_game_def)
  from rows have "length (map (\<lambda>r. (row_round r, row_actor r)) (history g')) = 2 * length ts"
    by (simp only: length_round_rows)
  then show len: "length (history g') = 2 * length ts" by simp
  have "map row_round (history g') = map fst (map (\<lambda>r. (row_round r, row_actor r)) (history g'))"
    by simp
  then have mr: "map row_round (history g') = map fst (round_rows 1 (length ts))"
    by (simp only: rows)
  show "sorted (map row_round (history g'))"
    unfolding mr by (rule sorted_round_rows)
  fix i
  assume i: "i < 2 * length ts"
  with len have "(row_round (history g' ! i), row_actor (history g' ! i))
      = map (\<lambda>r. (row_round r, row_actor r)) (history g') ! i"
    by simp
  also have "\<dots> = round_rows 1 (length ts) ! i"
    by (simp only: rows)
  also have "\<dots> = (1 + int (i div 2), if even i then ''player'' else ''bot'')"
    using i by (rule nth_round_rows)
  finally show "row_round (history g' ! i) = 1 + int (i div 2)"
    and "row_actor (history g' ! i) = (if even i then ''player'' else ''bot'')"
    by simp_all
next
  show "\<exists>new. history (fst (state_after (play_turns (g, ai) turns))) = history g @ new"
    by (rule play_turns_history_grows)
qed

theorem history_two_rows_per_round_witness:
  "play_turns (init_game new_ai [2, 9, 4, 7, 5] [3, 8, 1, 6, 10], new_ai) five_turns =
     Inr (played_out_game, snd (state_after (play_turns (fresh_game, new_ai) five_turns))) \<and>
   length (history played_out_game) = 2 * length five_turns \<and>
   map row_round (history played_out_game) = [1, 1, 2, 2, 3, 3, 4, 4, 5, 5] \<and>
   sorted (map row_round (history played_out_game)) \<and>
   (3 :: nat) < 2 * length five_turns \<and>
   row_round (history played_out_game ! 3) = 1 + int (3 div 2) \<and>
   row_actor (history played_out_game ! 3) = ''bot''"
proof -
  have p: "play_turns (init_game new_ai [2, 9, 4, 7, 5] [3, 8, 1, 6, 10], new_ai) five_turns =
     Inr (played_out_game, snd (state_after (play_turns (fresh_game, new_ai) five_turns)))"
    using Inr_state_after [OF five_turns_return]
    by (simp add: played_out_game_def fresh_game_def)
  have i: "(3 :: nat) < 2 * length five_turns"
    by (simp add: five_turns_def)
  from history_two_rows_per_round [where ai_init = new_ai and ph = "[2, 9, 4, 7, 5]"
      and bh = "[3, 8, 1, 6, 10]" and ts = five_turns and g' = played_out_game
      and ai' = "snd (state_after (play_turns (fresh_game, new_ai) five_turns))"] p
  have c: "length (history played_out_game) = 2 * length five_turns"
    "sorted (map row_round (history played_out_game))"
    "\<forall>i. i < 2 * length five_turns \<longrightarrow>
         row_round (history played_out_game ! i) = 1 + int (i div 2) \<and>
         row_actor (history played_out_game ! i) = (if even i then ''player'' else ''bot'')"
    by blast+
  from c(3) i have "row_round (history played_out_game ! 3) = 1 + int (3 div 2)"
    and "row_actor (history played_out_game ! 3) = ''bot''"
    by auto
  with p c(1,2) i played_out_game_fields(6) show ?thesis
    by blast
qed

text \<open>
  Claim C10. Every call of \<^verbatim>\<open>player_turn\<close> that returns removes exactly one card from
  each hand and adds one to the round number. From a fresh game with two hands of five
  cards, every sequence of at most five turns returns, the round number stays within
  the limit of 10, and the terminal flag is set exactly after the fifth turn, with
  both hands empty and round number 6; a sixth turn raises ValueError. The round limit
  is never what ends the game.
\<close>

theorem fresh_game_ends_after_five_rounds:
  assumes "draw_hand HAND_SIZE ph" and "draw_hand HAND_SIZE bh"
  shows "(player_turn g ai claim bluff d = Inr (g', ai') \<longrightarrow>
            length (hand (player g')) + 1 = length (hand (player g)) \<and>
            length (hand (bot_state g')) + 1 = length (hand (bot_state g)) \<and>
            round_num g' = round_num g + 1) \<and>
         (length ts \<le> 5 \<longrightarrow>
            (\<exists>g_end ai_end. play_turns (init_game ai_init ph bh, ai_init) ts = Inr (g_end, ai_end) \<and>
               length (hand (player g_end)) = 5 - length ts \<and>
               length (hand (bot_state g_end)) = 5 - length ts \<and>
               round_num g_end = 1 + int (length ts) \<and>
               round_num g_end \<le> MAX_ROUNDS \<and>
               (game_over g_end \<longleftrightarrow> length ts = 5))) \<and>
         (5 < length ts \<longrightarrow>
            (\<exists>s. play_turns (init_game ai_init ph bh, ai_init) ts = Inl (ValueError, s)))"
proof (intro conjI impI)
  assume t: "player_turn g ai claim bluff d = Inr (g', ai')"
  from player_turn_step(1,2,3) [OF t]
  show "length (hand (player g')) + 1 = length (hand (player g))"
    and "length (hand (bot_state g')) + 1 = length (hand (bot_state g))"
    and "round_num g' = round_num g + 1"
    by simp_all
next
  have lp: "length (hand (player (init_game ai_init ph bh))) = 5"
    and lb: "length (hand (bot_state (init_game ai_init ph bh))) = 5"
    using assms by (simp_all add: init_game_def draw_hand_nonempty)
  {
    assume le: "length ts \<le> 5"
    from play_turns_within_hands [OF lp lb le, of ai_init]
    obtain g_end ai_end where p: "play_turns (init_game ai_init ph bh, ai_init) ts = Inr (g_end, ai_end)"
      and l: "length (hand (player g_end)) = 5 - length ts"
         "length (hand (bot_state g_end)) = 5 - length ts"
      by blast
    from play_turns_rows [OF p] have r: "round_num g_end = 1 + int (length ts)"
      by (simp add: init_game_def)
    have init: "game_over (init_game ai_init ph bh) \<longleftrightarrow>
      round_num (init_game ai_init ph bh) > MAX_ROUNDS
        \<or> (hand (player (init_game ai_init ph bh)) = [] \<and> hand (bot_state (init_game ai_init ph bh)) = [])"
      using lp by (auto simp add: init_game_def MAX_ROUNDS_def)
    from play_turns_terminal_inv [OF p init]
    have "game_over g_end \<longleftrightarrow> round_num g_end > MAX_ROUNDS
          \<or> (hand (player g_end) = [] \<and> hand (bot_state g_end) = [])" .
    with r l le have go: "game_over g_end \<longleftrightarrow> length ts = 5"
      by (auto simp add: MAX_ROUNDS_def)
    from r le have "round_num g_end \<le> MAX_ROUNDS"
      by (simp add: MAX_ROUNDS_def)
    with p l r go
    show "\<exists>g_end ai_end. play_turns (init_game ai_init ph bh, ai_init) ts = Inr (g_end, ai_end) \<and>
               length (hand (player g_end)) = 5 - length ts \<and>
               length (hand (bot_state g_end)) = 5 - length ts \<and>
               round_num g_end = 1 + int (length ts) \<and>
               round_num g_end \<le> MAX_ROUNDS \<and>
               (game_over g_end \<longleftrightarrow> length ts = 5)"
      by blast
  }
  {
    assume "5 < length ts"
    from play_turns_beyond_hands [OF lp lb this, of ai_init]
    show "\<exists>s. play_turns (init_game ai_init ph bh, ai_init) ts = Inl (ValueError, s)" .
  }
qed

theorem fresh_game_ends_after_five_rounds_witness:
  "draw_hand HAND_SIZE [2, 9, 4, 7, 5] \<and> draw_hand HAND_SIZE [3, 8, 1, 6, 10] \<and>
   player_turn fresh_game new_ai ''high'' False rolls_honest =
     Inr (fst (state_after (player_turn fresh_game new_ai ''high'' False rolls_honest)),
          snd (state_after (player_turn fresh_game new_ai ''high'' False rolls_honest))) \<and>
   length (hand (player (fst (state_after (player_turn fresh_game new_ai ''high'' False rolls_honest))))) = 4 \<and>
   length (hand (bot_state (fst (state_after (player_turn fresh_game new_ai ''high'' False rolls_honest))))) = 4 \<and>
   round_num (fst (state_after (player_turn fresh_game new_ai ''high'' False rolls_honest))) = 2 \<and>
   length five_turns \<le> 5 \<and>
   \<not> isl (play_turns (fresh_game, new_ai) five_turns) \<and>
   hand (player played_out_game) = [] \<and> hand (bot_state played_out_game) = [] \<and>
   round_num played_out_game = 6 \<and> game_over played_out_game \<and>
   5 < length (five_turns @ [(''low'', False, rolls_honest)]) \<and>
   isl (play_turns (fresh_game, new_ai) (five_turns @ [(''low'', False, rolls_honest)]))"
proof -
  have t: "player_turn fresh_game new_ai ''high'' False rolls_honest =
     Inr (fst (state_after (player_turn fresh_game new_ai ''high'' False rolls_honest)),
          snd (state_after (player_turn fresh_game new_ai ''high'' False rolls_honest)))"
    using fresh_turn_returns by (rule Inr_state_after)
  have l: "length five_turns \<le> 5" "5 < length (five_turns @ [(''low'', False, rolls_honest)])"
    by (simp_all add: five_turns_def)
  show ?thesis
    using t l fresh_game_draws fresh_turn_fields(2-4) five_turns_return played_out_game_fields(1-4)
      sixth_turn_raises(1)
      fresh_game_ends_after_five_rounds [OF fresh_game_draws,
        where g = fresh_game and ai = new_ai and claim = "''high''" and bluff = False
          and d = rolls_honest and ts = five_turns and ai_init = new_ai]
    by blast
qed

section \<open>Further properties\<close>

text \<open>
  The classifier is total with exactly three buckets: at most 3 is weak, 4 to 7 is
  medium, 8 and more is strong.
\<close>

theorem strength_bucket_thresholds:
  "strength_bucket s \<in> {''weak'', ''medium'', ''strong''} \<and>
   (strength_bucket s = ''weak'' \<longleftrightarrow> s \<le> 3) \<and>
   (strength_bucket s = ''medium'' \<longleftrightarrow> 4 \<le> s \<and> s \<le> 7) \<and>
   (strength_bucket s = ''strong'' \<longleftrightarrow> 8 \<le> s)"
  by (simp add: strength_bucket_def)

text \<open>
  Two observations give the same statistics in either order.
\<close>

theorem update_stats_commute:
  "update_stats (update_stats ai s c b) s' c' b' = update_stats (update_stats ai s' c' b') s c b"
proof (cases "(strength_bucket s, c) = (strength_bucket s', c')")
  case True
  then show ?thesis
    by (simp add: update_stats_def Let_def split: option.split)
next
  case False
  then show ?thesis
    by (auto simp add: update_stats_def Let_def fun_upd_twist split: option.split)
qed

text \<open>
  The call decision compares floats: the bot calls exactly when the float sum of the
  estimate and the noise exceeds the float 0.55. With a noise of at most the float 0.05,
  a context whose estimate is at most 1/2, an unseen one in particular, is never called;
  with a noise of at least the float -0.05, a context whose estimate is at least 0.61 is
  always called. A noise that the float addition absorbs does not change the decision:
  at an estimate of 11/20 the noise \<open>1 / 2 ^ 56\<close> gives no call, although the exact sum
  exceeds 0.55.
\<close>

theorem decide_call_threshold:
  "(fst (decide_call ai s c noise) \<longleftrightarrow>
      double_of (55 / 100) < double_of (double_of (bluff_probability ai s c) + noise)) \<and>
   (bluff_probability ai s c \<le> 1 / 2 \<and> noise \<le> double_of (5 / 100) \<longrightarrow>
      \<not> fst (decide_call ai s c noise)) \<and>
   (61 / 100 \<le> bluff_probability ai s c \<and> - double_of (5 / 100) \<le> noise \<longrightarrow>
      fst (decide_call ai s c noise))"
proof (intro conjI impI)
  show "fst (decide_call ai s c noise) \<longleftrightarrow>
      double_of (55 / 100) < double_of (double_of (bluff_probability ai s c) + noise)"
    by (simp add: decide_call_def Let_def)
next
  assume "bluff_probability ai s c \<le> 1 / 2 \<and> noise \<le> double_of (5 / 100)"
  then have p: "bluff_probability ai s c \<le> 1 / 2" and n: "noise \<le> double_of (5 / 100)"
    by simp_all
  from p have "double_of (bluff_probability ai s c) \<le> double_of (1 / 2)"
    by (rule double_of_mono)
  with n have "double_of (bluff_probability ai s c) + noise
      \<le> double_of (1 / 2) + double_of (5 / 100)"
    by linarith
  then have "double_of (double_of (bluff_probability ai s c) + noise)
      \<le> double_of (double_of (1 / 2) + double_of (5 / 100))"
    by (rule double_of_mono)
  also note noise_absorbed_below
  finally show "\<not> fst (decide_call ai s c noise)"
    by (simp add: decide_call_def Let_def not_less)
next
  assume "61 / 100 \<le> bluff_probability ai s c \<and> - double_of (5 / 100) \<le> noise"
  then have p: "61 / 100 \<le> bluff_probability ai s c" and n: "- double_of (5 / 100) \<le> noise"
    by simp_all
  from p have "double_of (61 / 100) \<le> double_of (bluff_probability ai s c)"
    by (rule double_of_mono)
  with n have "double_of (61 / 100) - double_of (5 / 100)
      \<le> double_of (bluff_probability ai s c) + noise"
    by linarith
  then have "double_of (double_of (61 / 100) - double_of (5 / 100))
      \<le> double_of (double_of (bluff_probability ai s c) + noise)"
    by (rule double_of_mono)
  with noise_absorbed_above
  have "double_of (55 / 100) < double_of (double_of (bluff_probability ai s c) + noise)"
    by (rule less_le_trans)
  then show "fst (decide_call ai s c noise)"
    by (simp add: decide_call_def Let_def)
qed

theorem decide_call_threshold_witness:
  "bluff_probability new_ai 9 ''high'' \<le> 1 / 2 \<and> 0 \<le> double_of (5 / 100) \<and>
   \<not> fst (decide_call new_ai 9 ''high'' 0) \<and>
   61 / 100 \<le> bluff_probability (observe_all new_ai (replicate 10 (2, ''high'', True))) 2 ''high'' \<and>
   - double_of (5 / 100) \<le> - double_of (5 / 100) \<and>
   fst (decide_call (observe_all new_ai (replicate 10 (2, ''high'', True))) 2 ''high''
     (- double_of (5 / 100))) \<and>
   bluff_probability
     (observe_all new_ai (replicate 10 (2, ''high'', True) @ replicate 7 (2, ''high'', False)))
     2 ''high'' = 11 / 20 \<and>
   double_of (1 / 2 ^ 56) = 1 / 2 ^ 56 \<and>
   double_of (double_of (11 / 20) + 1 / 2 ^ 56) = double_of (55 / 100) \<and>
   \<not> fst (decide_call
     (observe_all new_ai (replicate 10 (2, ''high'', True) @ replicate 7 (2, ''high'', False)))
     2 ''high'' (1 / 2 ^ 56))"
proof -
  have a: "bluff_probability new_ai 9 ''high'' \<le> 1 / 2"
    by (simp add: bluff_probability_def new_ai_def)
  have b: "61 / 100 \<le> bluff_probability (observe_all new_ai (replicate 10 (2, ''high'', True))) 2 ''high''"
    by code_simp
  have n: "0 \<le> double_of (5 / 100)" "- double_of (5 / 100) \<le> - double_of (5 / 100)"
    by (simp_all add: double_of_nonneg)
  have e: "bluff_probability
      (observe_all new_ai (replicate 10 (2, ''high'', True) @ replicate 7 (2, ''high'', False)))
      2 ''high'' = 11 / 20"
    by code_simp
  have f: "double_of (1 / 2 ^ 56) = 1 / 2 ^ 56"
    "double_of (double_of (11 / 20) + 1 / 2 ^ 56) = double_of (55 / 100)"
    by code_simp+
  from decide_call_threshold [where ai = "observe_all new_ai
        (replicate 10 (2, ''high'', True) @ replicate 7 (2, ''high'', False))"
      and s = 2 and c = "''high''" and noise = "1 / 2 ^ 56"]
  have "fst (decide_call
        (observe_all new_ai (replicate 10 (2, ''high'', True) @ replicate 7 (2, ''high'', False)))
        2 ''high'' (1 / 2 ^ 56)) \<longleftrightarrow>
      double_of (55 / 100) < double_of (double_of (bluff_probability
        (observe_all new_ai (replicate 10 (2, ''high'', True) @ replicate 7 (2, ''high'', False)))
        2 ''high'') + 1 / 2 ^ 56)"
    by (rule conjunct1)
  then have g: "\<not> fst (decide_call
      (observe_all new_ai (replicate 10 (2, ''high'', True) @ replicate 7 (2, ''high'', False)))
      2 ''high'' (1 / 2 ^ 56))"
    by (simp only: e f(2) less_irrefl simp_thms)
  show ?thesis
    using a b n e f g
      decide_call_threshold [where ai = new_ai and s = 9 and c = "''high''" and noise = 0]
      decide_call_threshold [where ai = "observe_all new_ai (replicate 10 (2, ''high'', True))"
        and s = 2 and c = "''high''" and noise = "- double_of (5 / 100)"]
    by blast
qed

text \<open>
  When the player holds a card and the bot holds none, \<^verbatim>\<open>player_turn\<close> raises in the
  bot's half, after the player's half has been carried out: the player's card is gone,
  the player's row is logged and the belief model is updated; the round is not advanced.
\<close>

theorem bot_hand_empty_raises_late:
  assumes "hand (player g) \<noteq> []" and "hand (bot_state g) = []"
  shows "\<exists>g1 ai1. player_turn g ai claim bluff d = Inl (ValueError, g1, ai1) \<and>
           length (hand (player g1)) + 1 = length (hand (player g)) \<and>
           length (history g1) = length (history g) + 1 \<and>
           round_num g1 = round_num g \<and>
           ai1 = update_stats ai (played_card bluff (hand (player g))) claim bluff"
proof -
  from player_half_fields [OF assms(1) refl refl, where ai = ai and claim = claim and d = d and bluff = bluff]
  obtain g1 where h: "player_half g ai claim bluff d =
        Inr (g1, update_stats ai (played_card bluff (hand (player g))) claim bluff)"
    and f: "hand (player g1) = remove1 (played_card bluff (hand (player g))) (hand (player g))"
      "hand (bot_state g1) = hand (bot_state g)"
      "round_num g1 = round_num g"
      "length (history g1) = length (history g) + 1"
    by auto
  from f(2) assms(2)
  have "bot_act g1 (update_stats ai (played_card bluff (hand (player g))) claim bluff) d
      = Inl (ValueError, g1)"
    by (simp add: bot_act_empty)
  with h have "player_turn g ai claim bluff d =
      Inl (ValueError, g1, update_stats ai (played_card bluff (hand (player g))) claim bluff)"
    by (simp add: player_turn_def)
  with f length_remove_played [OF assms(1), of bluff] show ?thesis
    by simp
qed

theorem bot_hand_empty_raises_late_witness:
  "hand (player (init_game new_ai [5, 2] [])) \<noteq> [] \<and>
   hand (bot_state (init_game new_ai [5, 2] [])) = [] \<and>
   isl (player_turn (init_game new_ai [5, 2] []) new_ai ''high'' False rolls_honest) \<and>
   hand (player (fst (state_after
     (player_turn (init_game new_ai [5, 2] []) new_ai ''high'' False rolls_honest)))) = [2] \<and>
   length (history (fst (state_after
     (player_turn (init_game new_ai [5, 2] []) new_ai ''high'' False rolls_honest)))) = 1"
proof -
  have a: "hand (player (init_game new_ai [5, 2] [])) \<noteq> []"
    and b: "hand (bot_state (init_game new_ai [5, 2] [])) = []"
    by (simp_all add: init_game_def)
  have c: "isl (player_turn (init_game new_ai [5, 2] []) new_ai ''high'' False rolls_honest)"
    "hand (player (fst (state_after
       (player_turn (init_game new_ai [5, 2] []) new_ai ''high'' False rolls_honest)))) = [2]"
    "length (history (fst (state_after
       (player_turn (init_game new_ai [5, 2] []) new_ai ''high'' False rolls_honest)))) = 1"
  proof -
    have "(let r = player_turn (init_game new_ai [5, 2] []) new_ai ''high'' False rolls_honest;
               g = fst (state_after r)
           in (isl r, hand (player g), length (history g)))
          = (True, [2], 1)"
      by code_simp
    then show
      "isl (player_turn (init_game new_ai [5, 2] []) new_ai ''high'' False rolls_honest)"
      "hand (player (fst (state_after
         (player_turn (init_game new_ai [5, 2] []) new_ai ''high'' False rolls_honest)))) = [2]"
      "length (history (fst (state_after
         (player_turn (init_game new_ai [5, 2] []) new_ai ''high'' False rolls_honest)))) = 1"
      by (simp_all add: Let_def)
  qed
  show ?thesis
    using a b c
      bot_hand_empty_raises_late [OF a b, where ai = new_ai and claim = "''high''"
        and bluff = False and d = rolls_honest]
    by blast
qed

lemma update_stats_counts:
  assumes "\<And>key b t. context_stats ai key = Some (b, t) \<Longrightarrow> b \<le> t \<and> 1 \<le> t"
    and "context_stats (update_stats ai s c bl) key = Some (b, t)"
  shows "b \<le> t \<and> 1 \<le> t"
proof (cases "key = (strength_bucket s, c)")
  case True
  show ?thesis
  proof (cases "context_stats ai (strength_bucket s, c)")
    case None
    with True assms(2) show ?thesis
      by (auto simp add: update_stats_def Let_def)
  next
    case (Some v)
    obtain b0 t0 where v: "v = (b0, t0)" by (cases v)
    from assms(1) Some v have "b0 \<le> t0" by blast
    with True Some v assms(2) show ?thesis
      by (auto simp add: update_stats_def Let_def)
  qed
next
  case False
  with assms(2) have "context_stats ai key = Some (b, t)"
    by (simp add: update_stats_def Let_def)
  with assms(1) show ?thesis by blast
qed

lemma observe_all_counts:
  "(\<And>key b t. context_stats ai key = Some (b, t) \<Longrightarrow> b \<le> t \<and> 1 \<le> t) \<Longrightarrow>
   context_stats (observe_all ai obs) key = Some (b, t) \<Longrightarrow> b \<le> t \<and> 1 \<le> t"
proof (induction obs arbitrary: ai)
  case Nil
  then show ?case by simp
next
  case (Cons ob obs)
  have "\<And>key b t. context_stats (update_stats ai (fst ob) (fst (snd ob)) (snd (snd ob))) key
      = Some (b, t) \<Longrightarrow> b \<le> t \<and> 1 \<le> t"
    using update_stats_counts [of ai] Cons.prems(1) by blast
  from Cons.IH [OF this] Cons.prems(2) show ?case
    by simp
qed

text \<open>
  In every belief model that observations build from the empty one, each stored pair
  has \<open>bluff_count \<le> total_count\<close> and \<open>total_count \<ge> 1\<close>, and every estimate lies
  strictly between 0 and 1.
\<close>

theorem observed_estimates_bounded:
  "0 < bluff_probability (observe_all new_ai obs) s c \<and>
   bluff_probability (observe_all new_ai obs) s c < 1 \<and>
   (\<forall>b t. context_stats (observe_all new_ai obs) (strength_bucket s, c) = Some (b, t) \<longrightarrow>
      b \<le> t \<and> 1 \<le> t)"
proof -
  have inv: "\<And>b t. context_stats (observe_all new_ai obs) (strength_bucket s, c) = Some (b, t)
      \<Longrightarrow> b \<le> t \<and> 1 \<le> t"
    by (rule observe_all_counts [of new_ai]) (simp_all add: new_ai_def)
  have "0 < bluff_probability (observe_all new_ai obs) s c \<and>
     bluff_probability (observe_all new_ai obs) s c < 1"
  proof (cases "context_stats (observe_all new_ai obs) (strength_bucket s, c)")
    case None
    then show ?thesis by (simp add: bluff_probability_def)
  next
    case (Some v)
    obtain b t where v: "v = (b, t)" by (cases v)
    from inv Some v have "b \<le> t" by blast
    with Some v show ?thesis by (simp add: bluff_probability_def)
  qed
  with inv show ?thesis by blast
qed

theorem observed_estimates_bounded_witness:
  "context_stats
     (observe_all new_ai (replicate 6 (2, ''high'', True) @ replicate 11 (2, ''high'', False)))
     (strength_bucket 2, ''high'') = Some (6, 17) \<and>
   (6 :: nat) \<le> 17 \<and> (1 :: nat) \<le> 17 \<and>
   0 < bluff_probability
     (observe_all new_ai (replicate 6 (2, ''high'', True) @ replicate 11 (2, ''high'', False)))
     2 ''high''"
  using stats_6_of_17
    observed_estimates_bounded [where s = 2 and c = "''high''"
      and obs = "replicate 6 (2, ''high'', True) @ replicate 11 (2, ''high'', False)"]
  by simp

end
